theory Spec2Isabelle
  imports Complex_Main "HOL-Library.Multiset" "HOL-Library.Char_ord" "HOL-Library.List_Lexorder"
    "HOL-Library.AList" "HOL-Library.Word" "HOL-Library.Log_Nat"
begin

section \<open>Data model\<close>

text \<open>
  The script \<^verbatim>\<open>streamlit/cookie_support.py\<close> loads one CSV into a pandas DataFrame
  \<^verbatim>\<open>df\<close> and derives every view from it with pandas, numpy and scipy calls. The
  embedding follows the script statement by statement; each module-level table of the
  script is a function of \<^verbatim>\<open>df\<close>, and \<^verbatim>\<open>script_upto_filter\<close> below runs them in the
  order of the script.

  A date is a pandas Timestamp at midnight (the loader parses \<^verbatim>\<open>%Y-%m-%d\<close>); it is
  represented by its proleptic Gregorian ordinal, the number \<^verbatim>\<open>toordinal()\<close> returns, so
  the order of dates is the order of the integers. The columns \<^verbatim>\<open>traffic\<close> and
  \<^verbatim>\<open>cookies_supported\<close> are int64: sums of them wrap around, and \<^verbatim>\<open>sint\<close> reads the
  signed value.
\<close>

type_synonym date = int

definition toordinal :: "date \<Rightarrow> int" where
  "toordinal d = d"

type_synonym int64 = "64 word"

record row =
  date :: date
  device_type :: string
  browser_name :: string
  traffic :: int64
  cookies_supported :: int64

type_synonym dataset = "row list"

text \<open>
  \<^verbatim>\<open>read_csv\<close> infers the types of the columns from the data rows: with at least one
  data row \<^verbatim>\<open>traffic\<close> and \<^verbatim>\<open>cookies_supported\<close> are int64 columns, and with none (a
  file that holds the header only) they are object columns. A table filtered out of
  \<^verbatim>\<open>df\<close> keeps the types of \<^verbatim>\<open>df\<close>, also when no row is left.
\<close>

definition numeric_columns :: "dataset \<Rightarrow> bool" where
  "numeric_columns df = (df \<noteq> [])"

text \<open>
  A float64 value of numpy: a finite number, one of the two infinities, or NaN. Finite
  arithmetic is exact real arithmetic (rounding and overflow to infinity are not
  modelled, zero is unsigned and counts as positive zero); the special values follow
  IEEE 754, whose exceptional cases numpy turns into warnings, never into Python
  exceptions.
\<close>

datatype fl = Fin real | PInf | NInf | NaN

fun fneg :: "fl \<Rightarrow> fl" where
  "fneg (Fin a) = Fin (- a)"
| "fneg PInf = NInf"
| "fneg NInf = PInf"
| "fneg NaN = NaN"

fun fadd :: "fl \<Rightarrow> fl \<Rightarrow> fl" where
  "fadd (Fin a) (Fin b) = Fin (a + b)"
| "fadd NaN _ = NaN"
| "fadd _ NaN = NaN"
| "fadd PInf NInf = NaN"
| "fadd NInf PInf = NaN"
| "fadd PInf _ = PInf"
| "fadd _ PInf = PInf"
| "fadd NInf _ = NInf"
| "fadd _ NInf = NInf"

definition fsub :: "fl \<Rightarrow> fl \<Rightarrow> fl" where
  "fsub a b = fadd a (fneg b)"

text \<open>The infinity with the sign of a finite number (zero counts as positive).\<close>

definition inf_of_sign :: "real \<Rightarrow> fl" where
  "inf_of_sign a = (if a < 0 then NInf else PInf)"

fun fmul :: "fl \<Rightarrow> fl \<Rightarrow> fl" where
  "fmul (Fin a) (Fin b) = Fin (a * b)"
| "fmul NaN _ = NaN"
| "fmul _ NaN = NaN"
| "fmul (Fin a) PInf = (if a = 0 then NaN else inf_of_sign a)"
| "fmul (Fin a) NInf = (if a = 0 then NaN else inf_of_sign (- a))"
| "fmul PInf (Fin b) = (if b = 0 then NaN else inf_of_sign b)"
| "fmul NInf (Fin b) = (if b = 0 then NaN else inf_of_sign (- b))"
| "fmul PInf PInf = PInf"
| "fmul PInf NInf = NInf"
| "fmul NInf PInf = NInf"
| "fmul NInf NInf = PInf"

fun fdiv :: "fl \<Rightarrow> fl \<Rightarrow> fl" where
  "fdiv (Fin a) (Fin b) =
     (if b = 0 then (if a = 0 then NaN else inf_of_sign a) else Fin (a / b))"
| "fdiv NaN _ = NaN"
| "fdiv _ NaN = NaN"
| "fdiv (Fin a) PInf = Fin 0"
| "fdiv (Fin a) NInf = Fin 0"
| "fdiv PInf (Fin b) = inf_of_sign b"
| "fdiv NInf (Fin b) = inf_of_sign (- b)"
| "fdiv PInf PInf = NaN"
| "fdiv PInf NInf = NaN"
| "fdiv NInf PInf = NaN"
| "fdiv NInf NInf = NaN"

text \<open>
  A Python integer as a float64, used for the ordinals of dates, which are far below
  \<open>2 ^ 53\<close> and so exactly representable.
\<close>

definition fl_of_int :: "int \<Rightarrow> fl" where
  "fl_of_int i = Fin (of_int i)"

text \<open>
  An int64 as a float64: the nearest number with a significand of 53 bits, a tie going to
  the even significand. \<^verbatim>\<open>round_f64\<close> rounds a non-negative integer.
\<close>

definition round_f64 :: "int \<Rightarrow> int" where
  "round_f64 n =
     (let k = bitlen n - 53
      in if k \<le> 0 then n
         else (let q = 2 ^ nat k; d = n div q; r = n mod q
               in (if 2 * r < q \<or> (2 * r = q \<and> even d) then d else d + 1) * q))"

definition f64_of_int :: "int \<Rightarrow> int" where
  "f64_of_int i = (if i < 0 then - round_f64 (- i) else round_f64 i)"

definition fl_of_int64 :: "int64 \<Rightarrow> fl" where
  "fl_of_int64 w = Fin (real_of_int (f64_of_int (sint w)))"

text \<open>
  The exceptions the script can raise, with the library's message. \<^verbatim>\<open>ValueError_sizes\<close>
  is the ValueError of \<^verbatim>\<open>np.concatenate\<close> for two arrays of different sizes, whose
  message names both sizes.
\<close>

datatype py_error =
  ValueError string | ValueError_sizes nat nat | AttributeError string | KeyError string

definition bind :: "py_error + 'a \<Rightarrow> ('a \<Rightarrow> py_error + 'b) \<Rightarrow> py_error + 'b" where
  "bind m f = (case m of Inl e \<Rightarrow> Inl e | Inr v \<Rightarrow> f v)"

section \<open>The Aggregator\<close>

text \<open>
  \<^verbatim>\<open>t.groupby(key).sum().reset_index()\<close>: one output row per distinct key, the keys in
  sorted order (groupby sorts by default), the numeric columns summed in int64 and the
  other columns dropped. The flag says whether \<^verbatim>\<open>traffic\<close> and \<^verbatim>\<open>cookies_supported\<close> are
  numeric columns of \<^verbatim>\<open>t\<close>; when they are not (the table then has no row) the result has
  the key column only, which is the value \<open>None\<close>.
\<close>

definition group_keys :: "('r \<Rightarrow> 'k::linorder) \<Rightarrow> 'r list \<Rightarrow> 'k list" where
  "group_keys key df = sort (remdups (map key df))"

record 'k grouped =
  g_key :: 'k
  g_traffic :: int64
  g_cookies_supported :: int64

record 'k grouped_pct = "'k grouped" +
  cookie_support_pct :: fl

definition groupby_sum ::
  "bool \<Rightarrow> (row \<Rightarrow> 'k::linorder) \<Rightarrow> dataset \<Rightarrow> 'k grouped list option" where
  "groupby_sum numeric key t =
     (if numeric
      then Some (map (\<lambda>k. \<lparr>g_key = k,
                    g_traffic = sum_list (map traffic (filter (\<lambda>r. key r = k) t)),
                    g_cookies_supported =
                      sum_list (map cookies_supported (filter (\<lambda>r. key r = k) t))\<rparr>)
                 (group_keys key t))
      else None)"

text \<open>
  \<^verbatim>\<open>t['cookie_support_pct'] = (t.cookies_supported / t.traffic) * 100\<close>: the true division
  of two int64 columns converts both to float64 and divides element by element. On a
  table without the numeric columns the attribute access \<^verbatim>\<open>t.cookies_supported\<close>, the
  left operand, raises AttributeError.
\<close>

definition pct_of :: "int64 \<Rightarrow> int64 \<Rightarrow> fl" where
  "pct_of part whole = fmul (fdiv (fl_of_int64 part) (fl_of_int64 whole)) (Fin 100)"

definition with_cookie_support_pct :: "'k grouped list \<Rightarrow> 'k grouped_pct list" where
  "with_cookie_support_pct t =
     map (\<lambda>g. \<lparr>g_key = g_key g, g_traffic = g_traffic g,
               g_cookies_supported = g_cookies_supported g,
               cookie_support_pct = pct_of (g_cookies_supported g) (g_traffic g)\<rparr>) t"

definition attach_cookie_support_pct ::
  "'k grouped list option \<Rightarrow> py_error + 'k grouped_pct list" where
  "attach_cookie_support_pct grouped =
     (case grouped of
        None \<Rightarrow> Inl (AttributeError ''cookies_supported'')
      | Some t \<Rightarrow> Inr (with_cookie_support_pct t))"

definition top_devices :: "string list" where
  "top_devices = [''desktop'', ''mobile'', ''tablet'']"

definition by_day :: "dataset \<Rightarrow> py_error + date grouped_pct list" where
  "by_day df = attach_cookie_support_pct (groupby_sum (numeric_columns df) date df)"

definition total_by_device :: "dataset \<Rightarrow> py_error + string grouped_pct list" where
  "total_by_device df =
     attach_cookie_support_pct
       (groupby_sum (numeric_columns df) device_type
          (filter (\<lambda>r. device_type r \<in> set top_devices) df))"

text \<open>
  \<^verbatim>\<open>t.sort_values(by='traffic', ascending=False)\<close>: pandas reverses the rows, sorts them
  ascending by the signed value and reverses the result, so with a stable sort equal keys
  keep their input order. (numpy's default sort is stable on short arrays only; on longer
  ones the order of equal keys is another fixed function of the input.) On a table
  without the column \<^verbatim>\<open>traffic\<close> it raises KeyError.
\<close>

definition sort_values_desc :: "('a \<Rightarrow> 'v::linorder) \<Rightarrow> 'a list \<Rightarrow> 'a list" where
  "sort_values_desc f t = rev (sort_key f (rev t))"

definition top_browsers :: "dataset \<Rightarrow> py_error + string list" where
  "top_browsers df =
     (case groupby_sum (numeric_columns df) browser_name df of
        None \<Rightarrow> Inl (KeyError ''traffic'')
      | Some t \<Rightarrow>
          Inr (map g_key (take 14 (sort_values_desc (\<lambda>g. sint (g_traffic g)) t))))"

text \<open>
  The traffic of one browser over the whole Dataset, the int64 sum the selection of the
  top browsers sorts by.
\<close>

definition browser_traffic :: "dataset \<Rightarrow> string \<Rightarrow> int64" where
  "browser_traffic df b = sum_list (map traffic (filter (\<lambda>r. browser_name r = b) df))"

subsection \<open>Pivot tables\<close>

text \<open>
  \<^verbatim>\<open>pd.pivot_table(t, values='traffic', index=['date'], columns=[col], aggfunc=np.sum)\<close>:
  one row per distinct date and one column per distinct value of \<^verbatim>\<open>col\<close>, both sorted.
  The traffic of the rows with one date and one value is summed in int64
  (\<^verbatim>\<open>pivot_group_sum\<close>); a cell holds that sum as a float64, and NaN when there is no such
  row. A frame is its list of column labels and, per index entry, the cells as an
  association list from column label to value. The columns derived from the cells of a
  row (\<^verbatim>\<open>total\<close>, \<^verbatim>\<open>mobile_tablet\<close> and the percentages) are computed with the exact
  arithmetic of \<^typ>\<open>fl\<close>. pandas rounds these sums to float64, and while no cell of a
  pivot is missing it keeps the cells in int64, adds them with wrap-around and converts them
  at the division; all of these agree with the model as long as the sums of a row stay
  below \<open>2 ^ 53\<close> in absolute value. The statements proved below about the device pivot
  relate the cells of one row to one another and hold at every magnitude.
\<close>

record pivot =
  p_columns :: "string list"
  p_rows :: "(date \<times> (string \<times> fl) list) list"

definition pivot_group_sum :: "(row \<Rightarrow> string) \<Rightarrow> dataset \<Rightarrow> date \<Rightarrow> string \<Rightarrow> int64" where
  "pivot_group_sum col df d c =
     sum_list (map traffic (filter (\<lambda>r. date r = d \<and> col r = c) df))"

definition pivot_cell :: "(row \<Rightarrow> string) \<Rightarrow> dataset \<Rightarrow> date \<Rightarrow> string \<Rightarrow> fl" where
  "pivot_cell col df d c =
     (if filter (\<lambda>r. date r = d \<and> col r = c) df = [] then NaN
      else fl_of_int64 (pivot_group_sum col df d c))"

definition pivot_cells :: "(row \<Rightarrow> string) \<Rightarrow> dataset \<Rightarrow> date \<Rightarrow> (string \<times> fl) list" where
  "pivot_cells col df d = map (\<lambda>c. (c, pivot_cell col df d c)) (group_keys col df)"

definition pivot_table :: "(row \<Rightarrow> string) \<Rightarrow> dataset \<Rightarrow> pivot" where
  "pivot_table col df =
     \<lparr>p_columns = group_keys col df,
      p_rows = map (\<lambda>d. (d, pivot_cells col df d)) (group_keys date df)\<rparr>"

definition fsum :: "fl list \<Rightarrow> fl" where
  "fsum vs = foldr fadd vs (Fin 0)"

text \<open>\<^verbatim>\<open>frame.sum(axis=1)\<close>: the sum of each row, NaN cells skipped.\<close>

definition sum_skipna :: "fl list \<Rightarrow> fl" where
  "sum_skipna vs = fsum (filter (\<lambda>v. v \<noteq> NaN) vs)"

definition sum_axis1 :: "pivot \<Rightarrow> fl list" where
  "sum_axis1 pv = map (\<lambda>(d, cells). sum_skipna (map snd cells)) (p_rows pv)"

text \<open>
  \<^verbatim>\<open>frame.name\<close>: the column of that label, AttributeError when the frame has no such
  column.
\<close>

definition cell_value :: "string \<Rightarrow> (string \<times> fl) list \<Rightarrow> fl" where
  "cell_value name cells = (case map_of cells name of Some v \<Rightarrow> v | None \<Rightarrow> NaN)"

definition get_column :: "string \<Rightarrow> pivot \<Rightarrow> py_error + fl list" where
  "get_column name pv =
     (if name \<in> set (p_columns pv)
      then Inr (map (\<lambda>(d, cells). cell_value name cells) (p_rows pv))
      else Inl (AttributeError name))"

text \<open>\<^verbatim>\<open>frame[name] = values\<close>: overwrite the column, or append it when it is new.\<close>

definition set_column :: "string \<Rightarrow> fl list \<Rightarrow> pivot \<Rightarrow> pivot" where
  "set_column name vs pv =
     \<lparr>p_columns = (if name \<in> set (p_columns pv) then p_columns pv
                   else p_columns pv @ [name]),
      p_rows = map (\<lambda>((d, cells), v). (d, AList.update name v cells)) (zip (p_rows pv) vs)\<rparr>"

definition pct_col :: "fl list \<Rightarrow> fl list \<Rightarrow> fl list" where
  "pct_col part whole = map (\<lambda>(p, w). fmul (fdiv p w) (Fin 100)) (zip part whole)"

definition by_device :: "dataset \<Rightarrow> py_error + pivot" where
  "by_device df =
     (let t0 = filter (\<lambda>r. device_type r \<in> set [''desktop'', ''mobile'', ''tablet'']) df;
          t1 = pivot_table device_type t0;
          t2 = set_column ''total'' (sum_axis1 t1) t1
      in bind (get_column ''mobile'' t2) (\<lambda>mobile.
         bind (get_column ''tablet'' t2) (\<lambda>tablet.
           let t3 = set_column ''mobile_tablet'' (map (\<lambda>(m, t). fadd m t) (zip mobile tablet)) t2
           in bind (get_column ''mobile_tablet'' t3) (\<lambda>mobile_tablet.
              bind (get_column ''total'' t3) (\<lambda>total.
                Inr (set_column ''mobile_tablet_pct'' (pct_col mobile_tablet total) t3))))))"

definition by_browser :: "dataset \<Rightarrow> py_error + pivot" where
  "by_browser df =
     (let t1 = pivot_table browser_name df;
          t2 = set_column ''total'' (sum_axis1 t1) t1
      in bind (get_column ''Chrome'' t2) (\<lambda>chrome.
         bind (get_column ''total'' t2) (\<lambda>total.
           Inr (set_column ''chrome_pct'' (pct_col chrome total) t2))))"

text \<open>
  Notions for the statements about the device pivot: the rows of a date with one of the
  given device types, the Dataset restricted to the three known device types (the table
  the device pivot is built from), and the cells of one row of the finished device pivot.
\<close>

definition day_device_rows :: "dataset \<Rightarrow> date \<Rightarrow> string list \<Rightarrow> dataset" where
  "day_device_rows df d devs = filter (\<lambda>r. date r = d \<and> device_type r \<in> set devs) df"

definition known_devices :: "dataset \<Rightarrow> dataset" where
  "known_devices df =
     filter (\<lambda>r. device_type r \<in> set [''desktop'', ''mobile'', ''tablet'']) df"

definition device_row :: "dataset \<Rightarrow> date \<Rightarrow> (string \<times> fl) list" where
  "device_row t0 d =
     (let cells = pivot_cells device_type t0 d;
          total = sum_skipna (map snd cells);
          mobile_tablet = fadd (cell_value ''mobile'' cells) (cell_value ''tablet'' cells)
      in AList.update ''mobile_tablet_pct'' (fmul (fdiv mobile_tablet total) (Fin 100))
           (AList.update ''mobile_tablet'' mobile_tablet
             (AList.update ''total'' total cells)))"

section \<open>The Filter Engine\<close>

definition filtered_df :: "dataset \<Rightarrow> py_error + dataset" where
  "filtered_df df =
     bind (top_browsers df) (\<lambda>tb.
       Inr (filter (\<lambda>r. device_type r \<in> set top_devices \<and> browser_name r \<in> set tb) df))"

text \<open>
  An option of a select box is \<^verbatim>\<open>None\<close> or a string; \<^verbatim>\<open>if device_type:\<close> holds for a
  string that is not empty.
\<close>

definition filter_df_by_options :: "dataset \<Rightarrow> string option \<Rightarrow> string option \<Rightarrow> dataset" where
  "filter_df_by_options df device_type_opt browser_name_opt =
     (let df1 = (case device_type_opt of
                   Some dt \<Rightarrow> if dt \<noteq> [] then filter (\<lambda>r. device_type r = dt) df else df
                 | None \<Rightarrow> df);
          df2 = (case browser_name_opt of
                   Some bn \<Rightarrow> if bn \<noteq> [] then filter (\<lambda>r. browser_name r = bn) df1 else df1
                 | None \<Rightarrow> df1)
      in df2)"

text \<open>
  Lines 195 to 197 on a pre-restricted table \<^verbatim>\<open>filtered_df\<close>, whose columns are numeric or
  not as the flag says; \<^verbatim>\<open>slice_dice_df\<close> is their result in the script, where the
  pre-restricted table comes from \<^verbatim>\<open>df\<close>.
\<close>

definition slice_dice ::
  "bool \<Rightarrow> dataset \<Rightarrow> string option \<Rightarrow> string option \<Rightarrow> py_error + date grouped_pct list" where
  "slice_dice numeric filtered device_option browser_option =
     attach_cookie_support_pct
       (groupby_sum numeric date (filter_df_by_options filtered device_option browser_option))"

definition slice_dice_df ::
  "dataset \<Rightarrow> string option \<Rightarrow> string option \<Rightarrow> py_error + date grouped_pct list" where
  "slice_dice_df df device_option browser_option =
     bind (filtered_df df) (\<lambda>filtered.
       slice_dice (numeric_columns df) filtered device_option browser_option)"

section \<open>The Trend Estimator\<close>

text \<open>
  \<^verbatim>\<open>scipy.stats.linregress(x, y)\<close>, of which the script keeps the slope and the intercept.
  The library rejects empty inputs, and inputs of two or more points whose x values are
  all identical; it takes the means with \<^verbatim>\<open>np.mean\<close> and the mean squared deviations
  \<^verbatim>\<open>ssxm\<close>, \<^verbatim>\<open>ssxym\<close> from \<^verbatim>\<open>np.cov(x, y, bias=1)\<close> (which refuses arrays of different
  lengths), and returns \<^verbatim>\<open>slope = ssxym / ssxm\<close> and
  \<^verbatim>\<open>intercept = ymean - slope * xmean\<close>.
\<close>

definition fmean :: "fl list \<Rightarrow> fl" where
  "fmean vs = fdiv (fsum vs) (Fin (of_nat (length vs)))"

definition cov_bias1 :: "fl list \<Rightarrow> fl list \<Rightarrow> fl" where
  "cov_bias1 us vs =
     (let du = map (\<lambda>u. fsub u (fmean us)) us;
          dv = map (\<lambda>v. fsub v (fmean vs)) vs
      in fmul (fsum (map (\<lambda>(a, b). fmul a b) (zip du dv)))
              (fdiv (Fin 1) (Fin (of_nat (length us)))))"

definition linregress :: "int list \<Rightarrow> fl list \<Rightarrow> py_error + (fl \<times> fl)" where
  "linregress x y =
     (if x = [] \<or> y = [] then Inl (ValueError ''Inputs must not be empty.'')
      else if Max (set x) = Min (set x) \<and> length x > 1
        then Inl (ValueError
               ''Cannot calculate a linear regression if all x values are identical'')
      else if length x \<noteq> length y
        then Inl (ValueError_sizes (length x) (length y))
      else
        (let xf = map fl_of_int x;
             xmean = fmean xf;
             ymean = fmean y;
             ssxm = cov_bias1 xf xf;
             ssxym = cov_bias1 xf y;
             slope = fdiv ssxym ssxm;
             intercept = fsub ymean (fmul slope xmean)
         in Inr (slope, intercept)))"

definition line_of_best_fit :: "date list \<Rightarrow> fl list \<Rightarrow> py_error + fl list" where
  "line_of_best_fit dates y =
     (let x = map toordinal dates
      in bind (linregress x y) (\<lambda>(slope, intercept).
           Inr (map (\<lambda>xi. fadd (fmul slope (fl_of_int xi)) intercept) x)))"

text \<open>
  The script up to the select boxes (lines 28 to 168, the plots left out), every
  statement in the order of the script; a statement that raises ends the run. The result
  is the pre-restricted table that lines 195 to 197 filter.
\<close>

definition script_upto_filter :: "dataset \<Rightarrow> py_error + dataset" where
  "script_upto_filter df =
     bind (top_browsers df) (\<lambda>names.
     bind (by_day df) (\<lambda>daily.
     bind (by_device df) (\<lambda>device_pivot.
     bind (total_by_device df) (\<lambda>device_totals.
     bind (by_browser df) (\<lambda>browser_pivot.
     bind (filtered_df df) (\<lambda>filtered.
     bind (line_of_best_fit (map g_key daily) (map cookie_support_pct daily))
       (\<lambda>best_fit_cookie_support.
     bind (get_column ''mobile_tablet_pct'' device_pivot) (\<lambda>mobile_tablet_pct.
     bind (line_of_best_fit (map fst (p_rows device_pivot)) mobile_tablet_pct)
       (\<lambda>best_fit_mobile.
     Inr filtered)))))))))"

text \<open>
  The same quantities over the real numbers, for inputs without NaN and infinities: the
  mean, the mean product of deviations that \<^verbatim>\<open>np.cov(..., bias=1)\<close> computes, and the sum
  of squared residuals of the line \<^verbatim>\<open>a * x + b\<close> on the points \<^verbatim>\<open>(x, y)\<close>, which an
  ordinary least squares fit minimises.
\<close>

definition rmean :: "real list \<Rightarrow> real" where
  "rmean vs = sum_list vs / real (length vs)"

definition rcov :: "real list \<Rightarrow> real list \<Rightarrow> real" where
  "rcov us vs =
     (\<Sum>(a, b)\<leftarrow>zip (map (\<lambda>u. u - rmean us) us) (map (\<lambda>v. v - rmean vs) vs). a * b)
     * (1 / real (length us))"

definition ssr :: "real \<Rightarrow> real \<Rightarrow> real list \<Rightarrow> real list \<Rightarrow> real" where
  "ssr a b xs ys = (\<Sum>(x, y)\<leftarrow>zip xs ys. (y - (a * x + b))\<^sup>2)"

section \<open>Basic facts\<close>

lemma set_group_keys: "set (group_keys key df) = key ` set df"
  by (simp add: group_keys_def)

lemma distinct_group_keys: "distinct (group_keys key df)"
  by (simp add: group_keys_def)

lemma sorted_group_keys: "sorted (group_keys key df)"
  by (simp add: group_keys_def)

lemma group_keys_Nil: "group_keys key [] = []"
  by (simp add: group_keys_def)

lemma with_pct_entry:
  "g \<in> set (with_cookie_support_pct t) \<Longrightarrow>
   cookie_support_pct g = pct_of (g_cookies_supported g) (g_traffic g)"
  by (auto simp: with_cookie_support_pct_def)

lemma round_f64_small: "n < 2 ^ 53 \<Longrightarrow> round_f64 n = n"
proof -
  assume "n < 2 ^ 53"
  then have "bitlen n \<le> 53"
    using bitlen_le_iff_power [of n 53] by simp
  then show ?thesis by (simp add: round_f64_def)
qed

lemma round_f64_pos: "0 < n \<Longrightarrow> 0 < round_f64 n"
proof (cases "bitlen n - 53 \<le> 0")
  case True
  assume "0 < n"
  with True show ?thesis by (simp add: round_f64_def)
next
  case False
  assume n: "0 < n"
  let ?k = "nat (bitlen n - 53)"
  let ?q = "(2::int) ^ ?k"
  from False have "?k \<le> nat (bitlen n - 1)" by simp
  then have "?q \<le> 2 ^ nat (bitlen n - 1)"
    by (rule power_increasing) simp
  also from bitlen_bounds [OF n] have "\<dots> \<le> n" by simp
  finally have "?q \<le> n" .
  then have "?q div ?q \<le> n div ?q"
    by (rule zdiv_mono1) simp
  then have d: "1 \<le> n div ?q" by simp
  have q: "0 < ?q" by simp
  from d q have "0 < (n div ?q) * ?q" and "0 < (n div ?q + 1) * ?q"
    by simp_all
  with False show ?thesis
    by (simp add: round_f64_def Let_def)
qed

lemma f64_of_int_small: "\<bar>i\<bar> < 2 ^ 53 \<Longrightarrow> f64_of_int i = i"
  by (auto simp: f64_of_int_def round_f64_small)

lemma f64_of_int_sign:
  "(f64_of_int i = 0 \<longleftrightarrow> i = 0) \<and> (f64_of_int i < 0 \<longleftrightarrow> i < 0)"
proof (cases "i = 0")
  case True
  then show ?thesis by (simp add: f64_of_int_def round_f64_small)
next
  case False
  show ?thesis
  proof (cases "i < 0")
    case True
    with round_f64_pos [of "- i"] show ?thesis by (simp add: f64_of_int_def)
  next
    case False
    with \<open>i \<noteq> 0\<close> round_f64_pos [of i] show ?thesis by (simp add: f64_of_int_def)
  qed
qed

lemma pct_of_zero_whole:
  "pct_of c 0 = (if c = 0 then NaN else if sint c < 0 then NInf else PInf)"
  using f64_of_int_sign [of "sint c"] signed_eq_0_iff [of c, where ?'a = int]
  by (auto simp: pct_of_def fl_of_int64_def inf_of_sign_def f64_of_int_small)

lemma p_columns_set_column:
  "set (p_columns (set_column name vs pv)) = insert name (set (p_columns pv))"
  by (auto simp: set_column_def)

lemma columns_pivot_table: "set (p_columns (pivot_table col df)) = col ` set df"
  by (simp add: pivot_table_def set_group_keys)

lemma fmean_single: "fmean [v] = v"
  by (cases v) (simp_all add: fmean_def fsum_def inf_of_sign_def)

lemma linregress_single: "linregress [x] [v] = Inr (NaN, NaN)"
  by (cases v)
    (simp_all add: linregress_def cov_bias1_def fmean_single fl_of_int_def fsub_def fsum_def)

lemma top_browsers_Inr: "top_browsers df = Inr names \<Longrightarrow> numeric_columns df"
  by (cases "numeric_columns df") (simp_all add: top_browsers_def groupby_sum_def)

lemma filtered_df_Inr: "filtered_df df = Inr filtered \<Longrightarrow> numeric_columns df"
  by (cases "top_browsers df") (auto simp: filtered_df_def bind_def dest: top_browsers_Inr)

lemma slice_dice_no_numeric_columns:
  "slice_dice False filtered device_option browser_option =
   Inl (AttributeError ''cookies_supported'')"
  by (simp add: slice_dice_def groupby_sum_def attach_cookie_support_pct_def)

lemma empty_dataset_raises:
  "top_browsers [] = Inl (KeyError ''traffic'')"
  "by_day [] = Inl (AttributeError ''cookies_supported'')"
  "total_by_device [] = Inl (AttributeError ''cookies_supported'')"
  "slice_dice_df [] device_option browser_option = Inl (KeyError ''traffic'')"
  "script_upto_filter [] = Inl (KeyError ''traffic'')"
  by (simp_all add: top_browsers_def by_day_def total_by_device_def slice_dice_df_def
      filtered_df_def script_upto_filter_def bind_def numeric_columns_def groupby_sum_def
      attach_cookie_support_pct_def)

lemma nonempty_dataset_tables:
  "df \<noteq> [] \<Longrightarrow> \<exists>names daily totals filtered.
     top_browsers df = Inr names \<and> by_day df = Inr daily \<and> total_by_device df = Inr totals \<and>
     filtered_df df = Inr filtered"
  by (simp add: top_browsers_def by_day_def total_by_device_def filtered_df_def bind_def
      numeric_columns_def groupby_sum_def attach_cookie_support_pct_def)

section \<open>Trend fit on fewer than two points\<close>

text \<open>
  Claim C1 says that \<^verbatim>\<open>line_of_best_fit\<close> fails with an explicit condition on every
  input of 0 or 1 points. On one point it does not fail: the library accepts the input,
  the slope is 0/0, and the function returns one fitted value, NaN.
\<close>

theorem line_of_best_fit_one_point_counterexample:
  "line_of_best_fit [737791] [Fin 50] = Inr [NaN]"
  by (simp add: line_of_best_fit_def linregress_single bind_def)

text \<open>
  Claim C1, amended: on an empty input \<^verbatim>\<open>line_of_best_fit\<close> fails with the ValueError
  "Inputs must not be empty."; on exactly one point it does not fail and returns the
  single fitted value NaN, so never a zero or any other finite fitted value.
\<close>

theorem line_of_best_fit_short:
  "length dates = length y \<Longrightarrow> length dates < 2 \<Longrightarrow>
   line_of_best_fit dates y =
     (if dates = [] then Inl (ValueError ''Inputs must not be empty.'') else Inr [NaN])"
proof (cases dates)
  case Nil
  then show ?thesis by (simp add: line_of_best_fit_def linregress_def bind_def)
next
  case (Cons d ds)
  assume "length dates = length y" "length dates < 2"
  with Cons obtain v where "ds = []" "y = [v]" by (cases y) auto
  with Cons show ?thesis
    by (simp add: line_of_best_fit_def linregress_single bind_def)
qed

theorem line_of_best_fit_short_witness:
  "length ([] :: date list) = length ([] :: fl list) \<and> length ([] :: date list) < 2 \<and>
   line_of_best_fit [] [] = Inl (ValueError ''Inputs must not be empty.'')"
  using line_of_best_fit_short [of "[]" "[]"] by simp

section \<open>Percentage of a group without traffic\<close>

lemma attach_pct_Inr:
  "attach_cookie_support_pct grouped = Inr t \<Longrightarrow>
   \<exists>t0. grouped = Some t0 \<and> t = with_cookie_support_pct t0"
  by (cases grouped) (simp_all add: attach_cookie_support_pct_def)

lemma attach_pct_entry:
  "attach_cookie_support_pct grouped = Inr t \<Longrightarrow> g \<in> set t \<Longrightarrow>
   cookie_support_pct g = pct_of (g_cookies_supported g) (g_traffic g)"
  by (auto dest!: attach_pct_Inr with_pct_entry)

lemma slice_dice_df_Inr:
  "slice_dice_df df device_option browser_option = Inr t \<Longrightarrow>
   \<exists>filtered. filtered_df df = Inr filtered \<and>
      slice_dice (numeric_columns df) filtered device_option browser_option = Inr t"
  by (cases "filtered_df df") (simp_all add: slice_dice_df_def bind_def)

lemma zero_traffic_pct:
  "cookie_support_pct g = pct_of (g_cookies_supported g) (g_traffic g) \<Longrightarrow>
   g_traffic g = 0 \<Longrightarrow>
   cookie_support_pct g =
     (if g_cookies_supported g = 0 then NaN
      else if sint (g_cookies_supported g) < 0 then NInf else PInf) \<and>
   (\<forall>x. cookie_support_pct g \<noteq> Fin x)"
  by (simp add: pct_of_zero_whole)

text \<open>
  Claim C2 says that the percentage of a group whose summed traffic is 0 is NaN. When the
  group's summed cookies_supported is not 0 the float division gives an infinity: one row
  with traffic 0 and cookies_supported 5 has the percentage +inf.
\<close>

theorem cookie_support_pct_inf_counterexample:
  "by_day [\<lparr>date = 737791, device_type = ''desktop'', browser_name = ''Chrome'',
            traffic = 0, cookies_supported = 5\<rparr>] =
   Inr [\<lparr>g_key = 737791, g_traffic = 0, g_cookies_supported = 5,
         cookie_support_pct = PInf\<rparr>]"
  by (simp add: by_day_def numeric_columns_def attach_cookie_support_pct_def
      with_cookie_support_pct_def groupby_sum_def group_keys_def pct_of_zero_whole)

text \<open>
  Claim C2, amended: for every group of the by-day table, of the table of device totals
  and of the slice-and-dice table whose summed traffic is 0, the percentage is computed
  without an error and is never a finite number (so never 0): it is NaN when the summed
  cookies_supported is 0 too, and the infinity with the sign of cookies_supported
  otherwise.
\<close>

theorem cookie_support_pct_zero_traffic:
  "(by_day df = Inr daily \<and> g \<in> set daily \<and> g_traffic g = 0 \<longrightarrow>
      cookie_support_pct g =
        (if g_cookies_supported g = 0 then NaN
         else if sint (g_cookies_supported g) < 0 then NInf else PInf) \<and>
      (\<forall>x. cookie_support_pct g \<noteq> Fin x)) \<and>
   (total_by_device df = Inr totals \<and> h \<in> set totals \<and> g_traffic h = 0 \<longrightarrow>
      cookie_support_pct h =
        (if g_cookies_supported h = 0 then NaN
         else if sint (g_cookies_supported h) < 0 then NInf else PInf) \<and>
      (\<forall>x. cookie_support_pct h \<noteq> Fin x)) \<and>
   (slice_dice_df df device_option browser_option = Inr sliced \<and> k \<in> set sliced \<and>
    g_traffic k = 0 \<longrightarrow>
      cookie_support_pct k =
        (if g_cookies_supported k = 0 then NaN
         else if sint (g_cookies_supported k) < 0 then NInf else PInf) \<and>
      (\<forall>x. cookie_support_pct k \<noteq> Fin x)) \<and>
   (df \<noteq> [] \<longrightarrow>
      (\<exists>t. by_day df = Inr t) \<and> (\<exists>t. total_by_device df = Inr t) \<and>
      (\<exists>t. slice_dice_df df device_option browser_option = Inr t))"
proof (intro conjI impI)
  assume a: "by_day df = Inr daily \<and> g \<in> set daily \<and> g_traffic g = 0"
  then have pct: "cookie_support_pct g = pct_of (g_cookies_supported g) (g_traffic g)"
    unfolding by_day_def by (blast dest: attach_pct_entry)
  from zero_traffic_pct [OF pct] a
  show "cookie_support_pct g =
        (if g_cookies_supported g = 0 then NaN
         else if sint (g_cookies_supported g) < 0 then NInf else PInf)"
    and "\<forall>x. cookie_support_pct g \<noteq> Fin x"
    by blast+
next
  assume a: "total_by_device df = Inr totals \<and> h \<in> set totals \<and> g_traffic h = 0"
  then have pct: "cookie_support_pct h = pct_of (g_cookies_supported h) (g_traffic h)"
    unfolding total_by_device_def by (blast dest: attach_pct_entry)
  from zero_traffic_pct [OF pct] a
  show "cookie_support_pct h =
        (if g_cookies_supported h = 0 then NaN
         else if sint (g_cookies_supported h) < 0 then NInf else PInf)"
    and "\<forall>x. cookie_support_pct h \<noteq> Fin x"
    by blast+
next
  assume a: "slice_dice_df df device_option browser_option = Inr sliced \<and> k \<in> set sliced \<and>
    g_traffic k = 0"
  then obtain filtered where
    "slice_dice (numeric_columns df) filtered device_option browser_option = Inr sliced"
    by (blast dest: slice_dice_df_Inr)
  with a have pct: "cookie_support_pct k = pct_of (g_cookies_supported k) (g_traffic k)"
    unfolding slice_dice_def by (blast dest: attach_pct_entry)
  from zero_traffic_pct [OF pct] a
  show "cookie_support_pct k =
        (if g_cookies_supported k = 0 then NaN
         else if sint (g_cookies_supported k) < 0 then NInf else PInf)"
    and "\<forall>x. cookie_support_pct k \<noteq> Fin x"
    by blast+
next
  assume ne: "df \<noteq> []"
  from nonempty_dataset_tables [OF ne]
  show "\<exists>t. by_day df = Inr t" and "\<exists>t. total_by_device df = Inr t"
    by blast+
  from nonempty_dataset_tables [OF ne] obtain filtered where "filtered_df df = Inr filtered"
    by blast
  with ne show "\<exists>t. slice_dice_df df device_option browser_option = Inr t"
    by (simp add: slice_dice_df_def bind_def slice_dice_def numeric_columns_def
        groupby_sum_def attach_cookie_support_pct_def)
qed

theorem cookie_support_pct_zero_traffic_witness:
  "by_day
     [\<lparr>date = 737791, device_type = ''mobile'', browser_name = ''Chrome'',
       traffic = 0, cookies_supported = 0\<rparr>,
      \<lparr>date = 737791, device_type = ''tablet'', browser_name = ''Chrome'',
       traffic = 0, cookies_supported = 0\<rparr>] =
   Inr [\<lparr>g_key = 737791, g_traffic = 0, g_cookies_supported = 0,
         cookie_support_pct = NaN\<rparr>] \<and>
   total_by_device
     [\<lparr>date = 737791, device_type = ''mobile'', browser_name = ''Chrome'',
       traffic = 0, cookies_supported = 0\<rparr>,
      \<lparr>date = 737791, device_type = ''tablet'', browser_name = ''Chrome'',
       traffic = 0, cookies_supported = 0\<rparr>] =
   Inr [\<lparr>g_key = ''mobile'', g_traffic = 0, g_cookies_supported = 0,
         cookie_support_pct = NaN\<rparr>,
        \<lparr>g_key = ''tablet'', g_traffic = 0, g_cookies_supported = 0,
         cookie_support_pct = NaN\<rparr>] \<and>
   slice_dice_df
     [\<lparr>date = 737791, device_type = ''mobile'', browser_name = ''Chrome'',
       traffic = 0, cookies_supported = 0\<rparr>,
      \<lparr>date = 737791, device_type = ''tablet'', browser_name = ''Chrome'',
       traffic = 0, cookies_supported = 0\<rparr>] None None =
   Inr [\<lparr>g_key = 737791, g_traffic = 0, g_cookies_supported = 0,
         cookie_support_pct = NaN\<rparr>] \<and>
   (\<forall>x. cookie_support_pct \<lparr>g_key = 737791 :: date, g_traffic = 0, g_cookies_supported = 0,
         cookie_support_pct = NaN\<rparr> \<noteq> Fin x) \<and>
   (\<forall>x. cookie_support_pct \<lparr>g_key = ''tablet'', g_traffic = 0, g_cookies_supported = 0,
         cookie_support_pct = NaN\<rparr> \<noteq> Fin x)"
proof -
  let ?df = "[\<lparr>date = 737791, device_type = ''mobile'', browser_name = ''Chrome'',
       traffic = 0, cookies_supported = 0\<rparr>,
      \<lparr>date = 737791, device_type = ''tablet'', browser_name = ''Chrome'',
       traffic = 0, cookies_supported = 0\<rparr>]"
  let ?g = "\<lparr>g_key = 737791 :: date, g_traffic = 0, g_cookies_supported = 0,
         cookie_support_pct = NaN\<rparr>"
  let ?m = "\<lparr>g_key = ''mobile'', g_traffic = 0, g_cookies_supported = 0,
         cookie_support_pct = NaN\<rparr>"
  let ?t = "\<lparr>g_key = ''tablet'', g_traffic = 0, g_cookies_supported = 0,
         cookie_support_pct = NaN\<rparr>"
  have daily: "by_day ?df = Inr [?g]" by code_simp
  have totals: "total_by_device ?df = Inr [?m, ?t]" by code_simp
  have sliced: "slice_dice_df ?df None None = Inr [?g]" by code_simp
  have mem: "?g \<in> set [?g]" "?t \<in> set [?m, ?t]" by simp_all
  have zero: "g_traffic ?g = 0" "g_traffic ?t = 0" by simp_all
  note inst = cookie_support_pct_zero_traffic [of ?df "[?g]" ?g "[?m, ?t]" ?t None None "[?g]" ?g]
  from inst daily mem(1) zero(1) have "\<forall>x. cookie_support_pct ?g \<noteq> Fin x" by blast
  moreover from inst totals mem(2) zero(2) have "\<forall>x. cookie_support_pct ?t \<noteq> Fin x" by blast
  ultimately show ?thesis using daily totals sliced by blast
qed

section \<open>The Chrome column of the browser pivot\<close>

text \<open>
  Claim C9: the browser pivot with its \<^verbatim>\<open>chrome_pct\<close> column is computed exactly when
  some row of the Dataset has the browser name Chrome; for a Dataset with no such row the
  access to the Chrome column raises AttributeError.
\<close>

theorem by_browser_needs_Chrome:
  "((\<exists>t. by_browser df = Inr t) \<longleftrightarrow> (\<exists>r\<in>set df. browser_name r = ''Chrome'')) \<and>
   ((\<forall>r\<in>set df. browser_name r \<noteq> ''Chrome'') \<longrightarrow>
      by_browser df = Inl (AttributeError ''Chrome''))"
proof -
  let ?t2 = "set_column ''total'' (sum_axis1 (pivot_table browser_name df))
               (pivot_table browser_name df)"
  have cols: "''Chrome'' \<in> set (p_columns ?t2) \<longleftrightarrow> (\<exists>r\<in>set df. browser_name r = ''Chrome'')"
    by (force simp: p_columns_set_column columns_pivot_table)
  have tot: "''total'' \<in> set (p_columns ?t2)"
    by (simp add: p_columns_set_column)
  show ?thesis
  proof (cases "\<exists>r\<in>set df. browser_name r = ''Chrome''")
    case True
    with cols have "''Chrome'' \<in> set (p_columns ?t2)" by simp
    with tot have "\<exists>t. by_browser df = Inr t"
      by (simp add: by_browser_def Let_def get_column_def bind_def)
    with True show ?thesis by blast
  next
    case False
    with cols have "''Chrome'' \<notin> set (p_columns ?t2)" by simp
    then have "by_browser df = Inl (AttributeError ''Chrome'')"
      by (simp add: by_browser_def Let_def get_column_def bind_def)
    with False show ?thesis by auto
  qed
qed

theorem by_browser_needs_Chrome_witness:
  "browser_name \<lparr>date = 737791, device_type = ''mobile'', browser_name = ''Safari'',
                traffic = 50, cookies_supported = 40\<rparr> \<noteq> ''Chrome'' \<and>
   browser_name \<lparr>date = 737791, device_type = ''tablet'', browser_name = ''Safari'',
                traffic = 30, cookies_supported = 10\<rparr> \<noteq> ''Chrome'' \<and>
   by_browser [\<lparr>date = 737791, device_type = ''mobile'', browser_name = ''Safari'',
                traffic = 50, cookies_supported = 40\<rparr>,
               \<lparr>date = 737791, device_type = ''tablet'', browser_name = ''Safari'',
                traffic = 30, cookies_supported = 10\<rparr>] = Inl (AttributeError ''Chrome'') \<and>
   script_upto_filter
              [\<lparr>date = 737791, device_type = ''mobile'', browser_name = ''Safari'',
                traffic = 50, cookies_supported = 40\<rparr>,
               \<lparr>date = 737791, device_type = ''tablet'', browser_name = ''Safari'',
                traffic = 30, cookies_supported = 10\<rparr>] = Inl (AttributeError ''Chrome'')"
proof -
  let ?df = "[\<lparr>date = 737791, device_type = ''mobile'', browser_name = ''Safari'',
                traffic = 50, cookies_supported = 40\<rparr>,
               \<lparr>date = 737791, device_type = ''tablet'', browser_name = ''Safari'',
                traffic = 30, cookies_supported = 10\<rparr>]"
  have no_chrome: "\<forall>r\<in>set ?df. browser_name r \<noteq> ''Chrome''" by simp
  with by_browser_needs_Chrome [of ?df]
  have raised: "by_browser ?df = Inl (AttributeError ''Chrome'')" by blast
  have script: "script_upto_filter ?df = Inl (AttributeError ''Chrome'')" by code_simp
  from raised script show ?thesis by simp
qed

section \<open>A filter that matches no row\<close>

text \<open>
  Claim C3: when the device and browser options select no row of the pre-restricted
  table, lines 195 to 197 raise no error and give the empty series, on every
  pre-restricted table with numeric columns and so on the pre-restricted table of every
  run of the script that reaches these lines. (A table without numeric columns comes from
  a Dataset without rows only, on which the script stops at line 28.)
\<close>

theorem slice_dice_df_empty:
  "filter_df_by_options filtered device_option browser_option = [] \<Longrightarrow>
   slice_dice True filtered device_option browser_option = Inr [] \<and>
   (filtered_df df = Inr filtered \<longrightarrow>
      slice_dice_df df device_option browser_option = Inr [])"
proof -
  assume empty: "filter_df_by_options filtered device_option browser_option = []"
  then have local: "slice_dice True filtered device_option browser_option = Inr []"
    by (simp add: slice_dice_def groupby_sum_def group_keys_Nil attach_cookie_support_pct_def
        with_cookie_support_pct_def)
  have "slice_dice_df df device_option browser_option = Inr []"
    if ok: "filtered_df df = Inr filtered"
  proof -
    from ok have "numeric_columns df" by (rule filtered_df_Inr)
    with ok local show ?thesis by (simp add: slice_dice_df_def bind_def)
  qed
  with local show ?thesis by blast
qed

theorem slice_dice_df_empty_witness:
  "script_upto_filter
     [\<lparr>date = 737791, device_type = ''mobile'', browser_name = ''Chrome'',
       traffic = 50, cookies_supported = 40\<rparr>,
      \<lparr>date = 737792, device_type = ''tablet'', browser_name = ''Chrome'',
       traffic = 30, cookies_supported = 10\<rparr>] =
   Inr [\<lparr>date = 737791, device_type = ''mobile'', browser_name = ''Chrome'',
       traffic = 50, cookies_supported = 40\<rparr>,
      \<lparr>date = 737792, device_type = ''tablet'', browser_name = ''Chrome'',
       traffic = 30, cookies_supported = 10\<rparr>] \<and>
   filtered_df
     [\<lparr>date = 737791, device_type = ''mobile'', browser_name = ''Chrome'',
       traffic = 50, cookies_supported = 40\<rparr>,
      \<lparr>date = 737792, device_type = ''tablet'', browser_name = ''Chrome'',
       traffic = 30, cookies_supported = 10\<rparr>] =
   Inr [\<lparr>date = 737791, device_type = ''mobile'', browser_name = ''Chrome'',
       traffic = 50, cookies_supported = 40\<rparr>,
      \<lparr>date = 737792, device_type = ''tablet'', browser_name = ''Chrome'',
       traffic = 30, cookies_supported = 10\<rparr>] \<and>
   filter_df_by_options
     [\<lparr>date = 737791, device_type = ''mobile'', browser_name = ''Chrome'',
       traffic = 50, cookies_supported = 40\<rparr>,
      \<lparr>date = 737792, device_type = ''tablet'', browser_name = ''Chrome'',
       traffic = 30, cookies_supported = 10\<rparr>] (Some ''desktop'') (Some ''Chrome'') = [] \<and>
   slice_dice_df
     [\<lparr>date = 737791, device_type = ''mobile'', browser_name = ''Chrome'',
       traffic = 50, cookies_supported = 40\<rparr>,
      \<lparr>date = 737792, device_type = ''tablet'', browser_name = ''Chrome'',
       traffic = 30, cookies_supported = 10\<rparr>] (Some ''desktop'') (Some ''Chrome'') = Inr []"
proof -
  let ?df = "[\<lparr>date = 737791, device_type = ''mobile'', browser_name = ''Chrome'',
       traffic = 50, cookies_supported = 40\<rparr>,
      \<lparr>date = 737792, device_type = ''tablet'', browser_name = ''Chrome'',
       traffic = 30, cookies_supported = 10\<rparr>]"
  have reach: "script_upto_filter ?df = Inr ?df" by code_simp
  have pre: "filtered_df ?df = Inr ?df" by code_simp
  have empty: "filter_df_by_options ?df (Some ''desktop'') (Some ''Chrome'') = []"
    by (simp add: filter_df_by_options_def)
  from reach pre empty slice_dice_df_empty [OF empty, of ?df] show ?thesis by blast
qed

section \<open>Conservation of traffic under aggregation\<close>












section \<open>The daily series\<close>


lemma keys_groupby_sum:
  "groupby_sum numeric key t = Some grouped \<Longrightarrow> map g_key grouped = group_keys key t"
  by (auto simp: groupby_sum_def comp_def split: if_splits)







section \<open>Selection of the top browsers\<close>

lemma group_keys_mset:
  "mset df' = mset df \<Longrightarrow> group_keys key df' = group_keys key df"
proof -
  assume "mset df' = mset df"
  then have "set df' = set df" by (rule mset_eq_setD)
  then have "set (group_keys key df') = set (group_keys key df)"
    by (simp add: set_group_keys)
  then show ?thesis
    by (intro sorted_distinct_set_unique sorted_group_keys distinct_group_keys)
qed

lemma sum_list_filter_mset:
  fixes f :: "'r \<Rightarrow> int64"
  shows "mset df' = mset df \<Longrightarrow>
   sum_list (map f (filter P df')) = sum_list (map f (filter P df))"
proof -
  assume "mset df' = mset df"
  then have "mset (map f (filter P df')) = mset (map f (filter P df))"
    by simp
  then have "sum_mset (mset (map f (filter P df'))) = sum_mset (mset (map f (filter P df)))"
    by (rule arg_cong)
  then show ?thesis by (simp only: sum_mset_sum_list)
qed

lemma groupby_sum_mset:
  "mset df' = mset df \<Longrightarrow>
   groupby_sum (numeric_columns df') key df' = groupby_sum (numeric_columns df) key df"
proof -
  assume perm: "mset df' = mset df"
  have "group_keys key df' = group_keys key df"
    using perm by (rule group_keys_mset)
  moreover have "\<And>(f :: row \<Rightarrow> int64) P.
      sum_list (map f (filter P df')) = sum_list (map f (filter P df))"
    using perm by (rule sum_list_filter_mset)
  moreover from perm have "numeric_columns df' = numeric_columns df"
    by (auto simp: numeric_columns_def)
  ultimately show ?thesis
    by (simp add: groupby_sum_def)
qed

lemma distinct_keys_sort_values_desc:
  "distinct (map g_key t) \<Longrightarrow> distinct (map g_key (sort_values_desc f t))"
proof -
  assume "distinct (map g_key t)"
  moreover have "mset (map g_key (sort_values_desc f t)) = mset (map g_key t)"
    by (simp add: sort_values_desc_def)
  ultimately show ?thesis by (metis mset_eq_imp_distinct_iff)
qed

lemma set_sort_values_desc: "set (sort_values_desc f t) = set t"
  by (simp add: sort_values_desc_def)

lemma sort_values_desc_descending:
  "sorted_wrt (\<lambda>a b. f b \<le> f a) (sort_values_desc f t)"
proof -
  have "sorted (map f (sort_key f (rev t)))" by (rule sorted_sort_key)
  then have "sorted_wrt (\<lambda>a b. f a \<le> f b) (sort_key f (rev t))"
    by (simp add: sorted_wrt_map)
  then show ?thesis
    by (simp add: sort_values_desc_def sorted_wrt_rev)
qed

lemma set_keys_groupby_sum:
  "groupby_sum numeric key t = Some grouped \<Longrightarrow> g_key ` set grouped = key ` set t"
proof -
  assume grouped: "groupby_sum numeric key t = Some grouped"
  have "set (map g_key grouped) = set (group_keys key t)"
    by (simp only: keys_groupby_sum [OF grouped])
  then show ?thesis by (simp add: set_group_keys)
qed

lemma groupby_sum_browser_traffic:
  "groupby_sum numeric browser_name df = Some grouped \<Longrightarrow> g \<in> set grouped \<Longrightarrow>
   g_traffic g = browser_traffic df (g_key g)"
  by (auto simp: groupby_sum_def browser_traffic_def split: if_splits)

lemma top_browsers_Some:
  "top_browsers df = Inr names \<Longrightarrow>
   \<exists>grouped. groupby_sum (numeric_columns df) browser_name df = Some grouped \<and>
     names = map g_key (take 14 (sort_values_desc (\<lambda>g. sint (g_traffic g)) grouped))"
  by (cases "groupby_sum (numeric_columns df) browser_name df")
    (simp_all add: top_browsers_def)

lemma top_browsers_descending:
  assumes "top_browsers df = Inr names"
  shows "sorted_wrt (\<lambda>a b. sint (browser_traffic df b) \<le> sint (browser_traffic df a)) names"
proof -
  from assms obtain grouped
    where grouped: "groupby_sum (numeric_columns df) browser_name df = Some grouped"
      and names: "names = map g_key (take 14 (sort_values_desc (\<lambda>g. sint (g_traffic g)) grouped))"
    by (blast dest: top_browsers_Some)
  let ?sorted = "sort_values_desc (\<lambda>g. sint (g_traffic g)) grouped"
  have "sorted_wrt (\<lambda>a b. sint (g_traffic b) \<le> sint (g_traffic a)) ?sorted"
    by (rule sort_values_desc_descending)
  then have "sorted_wrt
      (\<lambda>a b. sint (browser_traffic df (g_key b)) \<le> sint (browser_traffic df (g_key a))) ?sorted"
    by (rule sorted_wrt_mono_rel [rotated])
      (simp add: set_sort_values_desc groupby_sum_browser_traffic [OF grouped])
  then have "sorted_wrt
      (\<lambda>a b. sint (browser_traffic df (g_key b)) \<le> sint (browser_traffic df (g_key a)))
      (take 14 ?sorted)"
    by (rule sorted_wrt_take)
  then show ?thesis
    by (simp add: names sorted_wrt_map)
qed

text \<open>
  Claim C7: the selection of the top browsers depends on the rows of the Dataset only:
  run again on the same Dataset (or on the same rows in any order) it yields the same
  result. On a Dataset with rows the result is a list, which holds at most 14 distinct
  browser names of the Dataset in descending order of their total int64 traffic.
\<close>

theorem top_browsers_deterministic:
  "mset df' = mset df \<Longrightarrow>
   top_browsers df' = top_browsers df \<and>
   (df \<noteq> [] \<longrightarrow> (\<exists>selected. top_browsers df = Inr selected)) \<and>
   (top_browsers df = Inr names \<longrightarrow>
      length names \<le> 14 \<and>
      distinct names \<and>
      set names \<subseteq> browser_name ` set df \<and>
      sorted_wrt (\<lambda>a b. sint (browser_traffic df b) \<le> sint (browser_traffic df a)) names)"
proof -
  assume perm: "mset df' = mset df"
  have same: "top_browsers df' = top_browsers df"
    by (simp add: top_browsers_def groupby_sum_mset [OF perm])
  have some: "\<exists>selected. top_browsers df = Inr selected" if "df \<noteq> []"
    using nonempty_dataset_tables [OF that] by blast
  have shape: "length names \<le> 14 \<and> distinct names \<and> set names \<subseteq> browser_name ` set df \<and>
      sorted_wrt (\<lambda>a b. sint (browser_traffic df b) \<le> sint (browser_traffic df a)) names"
    if ok: "top_browsers df = Inr names"
  proof -
    from ok obtain grouped
      where grouped: "groupby_sum (numeric_columns df) browser_name df = Some grouped"
        and names: "names =
          map g_key (take 14 (sort_values_desc (\<lambda>g. sint (g_traffic g)) grouped))"
      by (blast dest: top_browsers_Some)
    let ?sorted = "sort_values_desc (\<lambda>g. sint (g_traffic g)) grouped"
    have len: "length names \<le> 14"
      by (simp add: names)
    have "distinct (map g_key ?sorted)"
      by (simp add: distinct_keys_sort_values_desc keys_groupby_sum [OF grouped]
          distinct_group_keys)
    then have dist: "distinct names"
      by (simp add: names take_map [symmetric] del: take_map)
    have "set names \<subseteq> set (map g_key ?sorted)"
      unfolding names by (metis set_take_subset take_map)
    also have "\<dots> = browser_name ` set df"
      by (simp add: set_sort_values_desc set_keys_groupby_sum [OF grouped])
    finally have sub: "set names \<subseteq> browser_name ` set df" .
    from len dist sub top_browsers_descending [OF ok] show ?thesis by simp
  qed
  from same some shape show ?thesis by blast
qed

theorem top_browsers_deterministic_witness:
  "mset [\<lparr>date = 737791, device_type = ''desktop'', browser_name = ''Chrome'',
           traffic = 100, cookies_supported = 30\<rparr>,
         \<lparr>date = 737791, device_type = ''mobile'', browser_name = ''Safari'',
           traffic = 150, cookies_supported = 40\<rparr>] =
   mset [\<lparr>date = 737791, device_type = ''mobile'', browser_name = ''Safari'',
           traffic = 150, cookies_supported = 40\<rparr>,
         \<lparr>date = 737791, device_type = ''desktop'', browser_name = ''Chrome'',
           traffic = 100, cookies_supported = 30\<rparr>] \<and>
   top_browsers [\<lparr>date = 737791, device_type = ''desktop'', browser_name = ''Chrome'',
           traffic = 100, cookies_supported = 30\<rparr>,
         \<lparr>date = 737791, device_type = ''mobile'', browser_name = ''Safari'',
           traffic = 150, cookies_supported = 40\<rparr>] =
   top_browsers [\<lparr>date = 737791, device_type = ''mobile'', browser_name = ''Safari'',
           traffic = 150, cookies_supported = 40\<rparr>,
         \<lparr>date = 737791, device_type = ''desktop'', browser_name = ''Chrome'',
           traffic = 100, cookies_supported = 30\<rparr>] \<and>
   top_browsers [\<lparr>date = 737791, device_type = ''mobile'', browser_name = ''Safari'',
           traffic = 150, cookies_supported = 40\<rparr>,
         \<lparr>date = 737791, device_type = ''desktop'', browser_name = ''Chrome'',
           traffic = 100, cookies_supported = 30\<rparr>] = Inr [''Safari'', ''Chrome'']"
proof -
  have h: "mset [\<lparr>date = 737791, device_type = ''desktop'', browser_name = ''Chrome'',
           traffic = 100, cookies_supported = 30\<rparr>,
         \<lparr>date = 737791, device_type = ''mobile'', browser_name = ''Safari'',
           traffic = 150, cookies_supported = 40\<rparr>] =
   mset [\<lparr>date = 737791, device_type = ''mobile'', browser_name = ''Safari'',
           traffic = 150, cookies_supported = 40\<rparr>,
         \<lparr>date = 737791, device_type = ''desktop'', browser_name = ''Chrome'',
           traffic = 100, cookies_supported = 30\<rparr>]"
    by (simp add: add_mset_commute)
  have v: "top_browsers [\<lparr>date = 737791, device_type = ''mobile'', browser_name = ''Safari'',
           traffic = 150, cookies_supported = 40\<rparr>,
         \<lparr>date = 737791, device_type = ''desktop'', browser_name = ''Chrome'',
           traffic = 100, cookies_supported = 30\<rparr>] = Inr [''Safari'', ''Chrome'']"
    by code_simp
  from h v top_browsers_deterministic [OF h] show ?thesis by blast
qed

section \<open>The device pivot\<close>

lemma map_zip_maps: "map f (zip (map g xs) (map h xs)) = map (\<lambda>x. f (g x, h x)) xs"
  by (induction xs) simp_all

lemma set_column_rows:
  "set_column name (map V ds) \<lparr>p_columns = cs, p_rows = map (\<lambda>d. (d, F d)) ds\<rparr> =
   \<lparr>p_columns = (if name \<in> set cs then cs else cs @ [name]),
    p_rows = map (\<lambda>d. (d, AList.update name (V d) (F d))) ds\<rparr>"
  by (simp add: set_column_def map_zip_maps)

lemma get_column_rows:
  "get_column name \<lparr>p_columns = cs, p_rows = map (\<lambda>d. (d, F d)) ds\<rparr> =
   (if name \<in> set cs then Inr (map (\<lambda>d. cell_value name (F d)) ds)
    else Inl (AttributeError name))"
  by (simp add: get_column_def comp_def)

lemma sum_axis1_rows:
  "sum_axis1 \<lparr>p_columns = cs, p_rows = map (\<lambda>d. (d, F d)) ds\<rparr> =
   map (\<lambda>d. sum_skipna (map snd (F d))) ds"
  by (simp add: sum_axis1_def comp_def)

lemma cell_value_update:
  "cell_value name (AList.update k v cells) = (if name = k then v else cell_value name cells)"
  by (simp add: cell_value_def update_conv')

lemma cell_value_pivot_cells:
  "cell_value c (pivot_cells col t d) = (if c \<in> col ` set t then pivot_cell col t d c else NaN)"
proof -
  have "cell_value c (map (\<lambda>c. (c, f c)) cs) = (if c \<in> set cs then f c else NaN)" for f cs
    by (induction cs) (auto simp: cell_value_def)
  then show ?thesis by (simp add: pivot_cells_def set_group_keys)
qed

lemma by_device_closed:
  "by_device df =
    (if ''mobile'' \<notin> device_type ` set (known_devices df) then Inl (AttributeError ''mobile'')
     else if ''tablet'' \<notin> device_type ` set (known_devices df)
       then Inl (AttributeError ''tablet'')
     else Inr \<lparr>p_columns = group_keys device_type (known_devices df) @
                  [''total'', ''mobile_tablet'', ''mobile_tablet_pct''],
               p_rows = map (\<lambda>d. (d, device_row (known_devices df) d))
                  (group_keys date (known_devices df))\<rparr>)"
proof -
  have cols: "set (group_keys device_type (known_devices df)) \<subseteq>
      {''desktop'', ''mobile'', ''tablet''}"
    by (auto simp: set_group_keys known_devices_def)
  then have notin: "''total'' \<notin> set (group_keys device_type (known_devices df))"
    "''mobile_tablet'' \<notin> set (group_keys device_type (known_devices df))"
    "''mobile_tablet_pct'' \<notin> set (group_keys device_type (known_devices df))"
    by auto
  show ?thesis
    unfolding by_device_def Let_def known_devices_def [symmetric] pivot_table_def
    by (simp add: sum_axis1_rows set_column_rows get_column_rows bind_def notin
        cell_value_update map_zip_maps pct_col_def set_group_keys [symmetric] device_row_def Let_def)
qed

lemma by_device_rows:
  assumes "by_device df = Inr pv"
  shows "''mobile'' \<in> device_type ` set (known_devices df)"
    and "''tablet'' \<in> device_type ` set (known_devices df)"
    and "p_rows pv = map (\<lambda>d. (d, device_row (known_devices df) d))
                  (group_keys date (known_devices df))"
proof -
  note closed = by_device_closed [of df]
  show m: "''mobile'' \<in> device_type ` set (known_devices df)"
  proof (rule ccontr)
    assume "''mobile'' \<notin> device_type ` set (known_devices df)"
    with closed have "by_device df = Inl (AttributeError ''mobile'')" by simp
    with assms show False by simp
  qed
  show t: "''tablet'' \<in> device_type ` set (known_devices df)"
  proof (rule ccontr)
    assume "''tablet'' \<notin> device_type ` set (known_devices df)"
    with closed m have "by_device df = Inl (AttributeError ''tablet'')"
      by simp
    with assms show False by simp
  qed
  from closed m t have "by_device df = Inr \<lparr>p_columns = group_keys device_type (known_devices df) @
                  [''total'', ''mobile_tablet'', ''mobile_tablet_pct''],
               p_rows = map (\<lambda>d. (d, device_row (known_devices df) d))
                  (group_keys date (known_devices df))\<rparr>"
    by simp
  with assms show "p_rows pv = map (\<lambda>d. (d, device_row (known_devices df) d))
                  (group_keys date (known_devices df))"
    by auto
qed


lemma pivot_cell_known_device:
  "c \<in> set [''desktop'', ''mobile'', ''tablet''] \<Longrightarrow>
   pivot_cell device_type (known_devices df) d c =
   (if day_device_rows df d [c] = [] then NaN
    else fl_of_int64 (sum_list (map traffic (day_device_rows df d [c]))))"
proof -
  assume c: "c \<in> set [''desktop'', ''mobile'', ''tablet'']"
  have "filter (\<lambda>r. date r = d \<and> device_type r = c) (known_devices df) =
        day_device_rows df d [c]"
    unfolding day_device_rows_def known_devices_def filter_filter
    by (rule filter_cong) (use c in auto)
  then show ?thesis by (simp add: pivot_cell_def pivot_group_sum_def)
qed

lemma known_devices_day:
  "filter (\<lambda>r. date r = d) (known_devices df) = day_device_rows df d top_devices"
  unfolding day_device_rows_def known_devices_def top_devices_def filter_filter
  by (rule filter_cong) auto

lemma fsum_finite: "\<exists>x. fsum (map Fin rs) = Fin x"
  by (induction rs) (auto simp: fsum_def)

lemma sum_skipna_finite:
  "(\<And>v. v \<in> set vs \<Longrightarrow> v = NaN \<or> (\<exists>r. v = Fin r)) \<Longrightarrow> \<exists>x. sum_skipna vs = Fin x"
proof -
  assume cells: "\<And>v. v \<in> set vs \<Longrightarrow> v = NaN \<or> (\<exists>r. v = Fin r)"
  have "\<exists>rs. filter (\<lambda>v. v \<noteq> NaN) vs = map Fin rs"
    using cells
  proof (induction vs)
    case Nil
    then show ?case by simp
  next
    case (Cons v vs)
    then obtain rs where rs: "filter (\<lambda>v. v \<noteq> NaN) vs = map Fin rs" by auto
    from Cons.prems [of v] have "v = NaN \<or> (\<exists>r. v = Fin r)" by simp
    then show ?case
    proof
      assume "v = NaN"
      with rs show ?thesis by auto
    next
      assume "\<exists>r. v = Fin r"
      then obtain r where "v = Fin r" ..
      with rs have "filter (\<lambda>v. v \<noteq> NaN) (v # vs) = map Fin (r # rs)" by simp
      then show ?thesis ..
    qed
  qed
  then obtain rs where "filter (\<lambda>v. v \<noteq> NaN) vs = map Fin rs" ..
  with fsum_finite [of rs] show ?thesis by (simp add: sum_skipna_def)
qed

lemma device_row_total:
  "\<exists>x. cell_value ''total'' (device_row t0 d) = Fin x"
proof -
  have "\<exists>x. sum_skipna (map snd (pivot_cells device_type t0 d)) = Fin x"
    by (rule sum_skipna_finite)
      (auto simp: pivot_cells_def pivot_cell_def fl_of_int64_def)
  then show ?thesis
    by (simp add: device_row_def Let_def cell_value_update)
qed

lemma device_row_device:
  "c \<in> set [''desktop'', ''mobile'', ''tablet''] \<Longrightarrow>
   c \<in> device_type ` set (known_devices df) \<Longrightarrow>
   cell_value c (device_row (known_devices df) d) =
   (if day_device_rows df d [c] = [] then NaN
    else fl_of_int64 (sum_list (map traffic (day_device_rows df d [c]))))"
proof -
  assume c: "c \<in> set [''desktop'', ''mobile'', ''tablet'']"
    and mem: "c \<in> device_type ` set (known_devices df)"
  from c have ne: "c \<noteq> ''total''" "c \<noteq> ''mobile_tablet''" "c \<noteq> ''mobile_tablet_pct''"
    by auto
  have "cell_value c (device_row (known_devices df) d) =
      cell_value c (pivot_cells device_type (known_devices df) d)"
    using ne by (simp add: device_row_def Let_def cell_value_update)
  also have "\<dots> = pivot_cell device_type (known_devices df) d c"
    using mem by (simp add: cell_value_pivot_cells)
  also have "\<dots> = (if day_device_rows df d [c] = [] then NaN
      else fl_of_int64 (sum_list (map traffic (day_device_rows df d [c]))))"
    using c by (rule pivot_cell_known_device)
  finally show ?thesis .
qed

lemma device_row_mobile_tablet:
  "cell_value ''mobile_tablet'' (device_row t0 d) =
   fadd (cell_value ''mobile'' (device_row t0 d)) (cell_value ''tablet'' (device_row t0 d))"
  by (simp add: device_row_def Let_def cell_value_update)

lemma device_row_pct:
  "cell_value ''mobile_tablet_pct'' (device_row t0 d) =
   fmul (fdiv (cell_value ''mobile_tablet'' (device_row t0 d))
              (cell_value ''total'' (device_row t0 d))) (Fin 100)"
  by (simp add: device_row_def Let_def cell_value_update)

lemma by_device_needs_mobile_tablet:
  "(\<exists>pv. by_device df = Inr pv) \<longleftrightarrow>
   (\<exists>r\<in>set df. device_type r = ''mobile'') \<and> (\<exists>r\<in>set df. device_type r = ''tablet'')"
proof -
  have "''mobile'' \<in> device_type ` set (known_devices df) \<longleftrightarrow>
      (\<exists>r\<in>set df. device_type r = ''mobile'')"
    by (force simp: known_devices_def)
  moreover have "''tablet'' \<in> device_type ` set (known_devices df) \<longleftrightarrow>
      (\<exists>r\<in>set df. device_type r = ''tablet'')"
    by (force simp: known_devices_def)
  ultimately show ?thesis
    by (simp add: by_device_closed)
qed

text \<open>
  Claim C10 says that \<^verbatim>\<open>mobile_tablet\<close> and \<^verbatim>\<open>mobile_tablet_pct\<close> are both defined
  whenever the date has a mobile row and a tablet row. When the traffic of the date sums
  to 0 the percentage is 0/0: with one mobile and one tablet row of traffic 0,
  \<^verbatim>\<open>mobile_tablet\<close> is 0 and \<^verbatim>\<open>mobile_tablet_pct\<close> is NaN.
\<close>

theorem by_device_zero_traffic_counterexample:
  "day_device_rows
     [\<lparr>date = 737791, device_type = ''mobile'', browser_name = ''Safari'',
       traffic = 0, cookies_supported = 0\<rparr>,
      \<lparr>date = 737791, device_type = ''tablet'', browser_name = ''Safari'',
       traffic = 0, cookies_supported = 0\<rparr>] 737791 [''mobile''] \<noteq> [] \<and>
   day_device_rows
     [\<lparr>date = 737791, device_type = ''mobile'', browser_name = ''Safari'',
       traffic = 0, cookies_supported = 0\<rparr>,
      \<lparr>date = 737791, device_type = ''tablet'', browser_name = ''Safari'',
       traffic = 0, cookies_supported = 0\<rparr>] 737791 [''tablet''] \<noteq> [] \<and>
   by_device
     [\<lparr>date = 737791, device_type = ''mobile'', browser_name = ''Safari'',
       traffic = 0, cookies_supported = 0\<rparr>,
      \<lparr>date = 737791, device_type = ''tablet'', browser_name = ''Safari'',
       traffic = 0, cookies_supported = 0\<rparr>] =
   Inr \<lparr>p_columns = [''mobile'', ''tablet'', ''total'', ''mobile_tablet'', ''mobile_tablet_pct''],
        p_rows = [(737791, [(''mobile'', Fin 0), (''tablet'', Fin 0), (''total'', Fin 0),
                            (''mobile_tablet'', Fin 0), (''mobile_tablet_pct'', NaN)])]\<rparr>"
  by code_simp

text \<open>
  Claim C10, amended: whenever the device pivot is computed (the Dataset then has a mobile
  row and a tablet row; without one the column access raises AttributeError), every date
  with a desktop, mobile or tablet row has exactly one row in the pivot, and on it
  \<^verbatim>\<open>total\<close> is defined. The cell \<^verbatim>\<open>mobile\<close> is NaN exactly when the date has no mobile
  row, and likewise \<^verbatim>\<open>tablet\<close>. For a date without a mobile row or without a tablet row
  \<^verbatim>\<open>mobile_tablet\<close> and \<^verbatim>\<open>mobile_tablet_pct\<close> are NaN; for a date with a mobile row and a
  tablet row \<^verbatim>\<open>mobile_tablet\<close> is defined, and \<^verbatim>\<open>mobile_tablet_pct\<close> is defined, with the
  value \<^verbatim>\<open>mobile_tablet / total * 100\<close>, provided the total is not 0; when the total and
  \<^verbatim>\<open>mobile_tablet\<close> are both 0 it is NaN.
\<close>

theorem by_device_mobile_tablet:
  "by_device df = Inr pv \<Longrightarrow> day_device_rows df d top_devices \<noteq> [] \<Longrightarrow>
   \<exists>cells total.
     (d, cells) \<in> set (p_rows pv) \<and>
     (\<forall>other. (d, other) \<in> set (p_rows pv) \<longrightarrow> other = cells) \<and>
     cell_value ''total'' cells = Fin total \<and>
     (cell_value ''mobile'' cells = NaN \<longleftrightarrow> day_device_rows df d [''mobile''] = []) \<and>
     (cell_value ''tablet'' cells = NaN \<longleftrightarrow> day_device_rows df d [''tablet''] = []) \<and>
     (day_device_rows df d [''mobile''] = [] \<or> day_device_rows df d [''tablet''] = [] \<longrightarrow>
        cell_value ''mobile_tablet'' cells = NaN \<and>
        cell_value ''mobile_tablet_pct'' cells = NaN) \<and>
     (day_device_rows df d [''mobile''] \<noteq> [] \<and> day_device_rows df d [''tablet''] \<noteq> [] \<longrightarrow>
        (\<exists>y. cell_value ''mobile_tablet'' cells = Fin y \<and>
           (total \<noteq> 0 \<longrightarrow> cell_value ''mobile_tablet_pct'' cells = Fin (y / total * 100)) \<and>
           (total = 0 \<and> y = 0 \<longrightarrow> cell_value ''mobile_tablet_pct'' cells = NaN)))"
proof -
  assume ok: "by_device df = Inr pv" and rows_d: "day_device_rows df d top_devices \<noteq> []"
  note mob = by_device_rows(1) [OF ok] and tab = by_device_rows(2) [OF ok]
    and rows = by_device_rows(3) [OF ok]
  let ?cells = "device_row (known_devices df) d"
  from rows_d have "filter (\<lambda>r. date r = d) (known_devices df) \<noteq> []"
    unfolding known_devices_day .
  then have "d \<in> date ` set (known_devices df)"
    by (auto simp: filter_empty_conv)
  then have row: "(d, ?cells) \<in> set (p_rows pv)"
    unfolding rows by (simp add: set_group_keys)
  have unique: "\<forall>other. (d, other) \<in> set (p_rows pv) \<longrightarrow> other = ?cells"
    unfolding rows by auto
  obtain total where total: "cell_value ''total'' ?cells = Fin total"
    using device_row_total [of "known_devices df" d] by blast
  have mobile: "cell_value ''mobile'' ?cells =
      (if day_device_rows df d [''mobile''] = [] then NaN
       else fl_of_int64 (sum_list (map traffic (day_device_rows df d [''mobile'']))))"
    using mob by (intro device_row_device) simp_all
  have tablet: "cell_value ''tablet'' ?cells =
      (if day_device_rows df d [''tablet''] = [] then NaN
       else fl_of_int64 (sum_list (map traffic (day_device_rows df d [''tablet'']))))"
    using tab by (intro device_row_device) simp_all
  have mobile_nan: "cell_value ''mobile'' ?cells = NaN \<longleftrightarrow> day_device_rows df d [''mobile''] = []"
    unfolding mobile by (simp add: fl_of_int64_def)
  have tablet_nan: "cell_value ''tablet'' ?cells = NaN \<longleftrightarrow> day_device_rows df d [''tablet''] = []"
    unfolding tablet by (simp add: fl_of_int64_def)
  note mt = device_row_mobile_tablet [of "known_devices df" d]
  have pct: "cell_value ''mobile_tablet_pct'' ?cells =
      fmul (fdiv (cell_value ''mobile_tablet'' ?cells) (Fin total)) (Fin 100)"
    using device_row_pct [of "known_devices df" d] by (simp only: total)
  have missing: "cell_value ''mobile_tablet'' ?cells = NaN \<and>
      cell_value ''mobile_tablet_pct'' ?cells = NaN"
    if "day_device_rows df d [''mobile''] = [] \<or> day_device_rows df d [''tablet''] = []"
  proof -
    from that have "cell_value ''mobile_tablet'' ?cells = NaN"
      unfolding mt mobile tablet by (auto simp: fl_of_int64_def)
    then show ?thesis by (simp add: pct)
  qed
  have present: "\<exists>y. cell_value ''mobile_tablet'' ?cells = Fin y \<and>
      (total \<noteq> 0 \<longrightarrow> cell_value ''mobile_tablet_pct'' ?cells = Fin (y / total * 100)) \<and>
      (total = 0 \<and> y = 0 \<longrightarrow> cell_value ''mobile_tablet_pct'' ?cells = NaN)"
    if "day_device_rows df d [''mobile''] \<noteq> [] \<and> day_device_rows df d [''tablet''] \<noteq> []"
  proof -
    from that obtain y where y: "cell_value ''mobile_tablet'' ?cells = Fin y"
      unfolding mt mobile tablet by (simp add: fl_of_int64_def)
    then have "total \<noteq> 0 \<longrightarrow> cell_value ''mobile_tablet_pct'' ?cells = Fin (y / total * 100)"
      and "total = 0 \<and> y = 0 \<longrightarrow> cell_value ''mobile_tablet_pct'' ?cells = NaN"
      by (simp_all add: pct)
    with y show ?thesis by blast
  qed
  from row unique total mobile_nan tablet_nan missing present show ?thesis
    by blast
qed

theorem by_device_mobile_tablet_witness:
  "script_upto_filter
     [\<lparr>date = 737791, device_type = ''desktop'', browser_name = ''Chrome'',
       traffic = 100, cookies_supported = 30\<rparr>,
      \<lparr>date = 737792, device_type = ''mobile'', browser_name = ''Safari'',
       traffic = 50, cookies_supported = 10\<rparr>,
      \<lparr>date = 737792, device_type = ''tablet'', browser_name = ''Safari'',
       traffic = 30, cookies_supported = 5\<rparr>] =
   Inr [\<lparr>date = 737791, device_type = ''desktop'', browser_name = ''Chrome'',
       traffic = 100, cookies_supported = 30\<rparr>,
      \<lparr>date = 737792, device_type = ''mobile'', browser_name = ''Safari'',
       traffic = 50, cookies_supported = 10\<rparr>,
      \<lparr>date = 737792, device_type = ''tablet'', browser_name = ''Safari'',
       traffic = 30, cookies_supported = 5\<rparr>] \<and>
   by_device
     [\<lparr>date = 737791, device_type = ''desktop'', browser_name = ''Chrome'',
       traffic = 100, cookies_supported = 30\<rparr>,
      \<lparr>date = 737792, device_type = ''mobile'', browser_name = ''Safari'',
       traffic = 50, cookies_supported = 10\<rparr>,
      \<lparr>date = 737792, device_type = ''tablet'', browser_name = ''Safari'',
       traffic = 30, cookies_supported = 5\<rparr>] =
   Inr \<lparr>p_columns = [''desktop'', ''mobile'', ''tablet'', ''total'', ''mobile_tablet'',
                      ''mobile_tablet_pct''],
        p_rows = [(737791, [(''desktop'', Fin 100), (''mobile'', NaN), (''tablet'', NaN),
                            (''total'', Fin 100), (''mobile_tablet'', NaN),
                            (''mobile_tablet_pct'', NaN)]),
                  (737792, [(''desktop'', NaN), (''mobile'', Fin 50), (''tablet'', Fin 30),
                            (''total'', Fin 80), (''mobile_tablet'', Fin 80),
                            (''mobile_tablet_pct'', Fin 100)])]\<rparr> \<and>
   (\<exists>cells. (737791, cells) \<in> set
       [(737791 :: date, [(''desktop'', Fin 100), (''mobile'', NaN), (''tablet'', NaN),
                  (''total'', Fin 100), (''mobile_tablet'', NaN),
                  (''mobile_tablet_pct'', NaN)]),
        (737792, [(''desktop'', NaN), (''mobile'', Fin 50), (''tablet'', Fin 30),
                  (''total'', Fin 80), (''mobile_tablet'', Fin 80),
                  (''mobile_tablet_pct'', Fin 100)])] \<and>
      cell_value ''mobile_tablet'' cells = NaN \<and>
      cell_value ''mobile_tablet_pct'' cells = NaN) \<and>
   (\<exists>cells y. (737792, cells) \<in> set
       [(737791 :: date, [(''desktop'', Fin 100), (''mobile'', NaN), (''tablet'', NaN),
                  (''total'', Fin 100), (''mobile_tablet'', NaN),
                  (''mobile_tablet_pct'', NaN)]),
        (737792, [(''desktop'', NaN), (''mobile'', Fin 50), (''tablet'', Fin 30),
                  (''total'', Fin 80), (''mobile_tablet'', Fin 80),
                  (''mobile_tablet_pct'', Fin 100)])] \<and>
      cell_value ''mobile_tablet'' cells = Fin y)"
proof -
  let ?df = "[\<lparr>date = 737791, device_type = ''desktop'', browser_name = ''Chrome'',
       traffic = 100, cookies_supported = 30\<rparr>,
      \<lparr>date = 737792, device_type = ''mobile'', browser_name = ''Safari'',
       traffic = 50, cookies_supported = 10\<rparr>,
      \<lparr>date = 737792, device_type = ''tablet'', browser_name = ''Safari'',
       traffic = 30, cookies_supported = 5\<rparr>]"
  let ?rows = "[(737791 :: date, [(''desktop'', Fin 100), (''mobile'', NaN), (''tablet'', NaN),
                  (''total'', Fin 100), (''mobile_tablet'', NaN),
                  (''mobile_tablet_pct'', NaN)]),
        (737792, [(''desktop'', NaN), (''mobile'', Fin 50), (''tablet'', Fin 30),
                  (''total'', Fin 80), (''mobile_tablet'', Fin 80),
                  (''mobile_tablet_pct'', Fin 100)])]"
  let ?pv = "\<lparr>p_columns = [''desktop'', ''mobile'', ''tablet'', ''total'', ''mobile_tablet'',
                      ''mobile_tablet_pct''], p_rows = ?rows\<rparr>"
  have reach: "script_upto_filter ?df = Inr ?df" by code_simp
  have ok: "by_device ?df = Inr ?pv" by code_simp
  have rows: "p_rows ?pv = ?rows" by simp
  have d1: "day_device_rows ?df 737791 top_devices \<noteq> []"
    and d2: "day_device_rows ?df 737792 top_devices \<noteq> []"
    by (simp_all add: day_device_rows_def top_devices_def)
  have no_mobile: "day_device_rows ?df 737791 [''mobile''] = [] \<or>
      day_device_rows ?df 737791 [''tablet''] = []"
    by (simp add: day_device_rows_def)
  have both: "day_device_rows ?df 737792 [''mobile''] \<noteq> [] \<and>
      day_device_rows ?df 737792 [''tablet''] \<noteq> []"
    by (simp add: day_device_rows_def)
  from by_device_mobile_tablet [OF ok d1] no_mobile
  have n1: "\<exists>cells. (737791, cells) \<in> set (p_rows ?pv) \<and>
      cell_value ''mobile_tablet'' cells = NaN \<and> cell_value ''mobile_tablet_pct'' cells = NaN"
    by blast
  from by_device_mobile_tablet [OF ok d2] both
  have n2: "\<exists>cells y. (737792, cells) \<in> set (p_rows ?pv) \<and>
      cell_value ''mobile_tablet'' cells = Fin y"
    by blast
  from reach ok n1 n2 show ?thesis unfolding rows by blast
qed

section \<open>The least squares fit\<close>

lemma fsum_Fin: "fsum (map Fin rs) = Fin (sum_list rs)"
  by (induction rs) (simp_all add: fsum_def)

lemma fmean_Fin: "rs \<noteq> [] \<Longrightarrow> fmean (map Fin rs) = Fin (rmean rs)"
  by (simp add: fmean_def fsum_Fin rmean_def)

lemma map2_fmul_Fin:
  "map (\<lambda>(a, b). fmul a b) (zip (map Fin as) (map Fin bs)) =
   map Fin (map (\<lambda>(a, b). a * b) (zip as bs))"
  by (simp add: zip_map_map case_prod_unfold)

lemma cov_bias1_Fin:
  "us \<noteq> [] \<Longrightarrow> vs \<noteq> [] \<Longrightarrow> cov_bias1 (map Fin us) (map Fin vs) = Fin (rcov us vs)"
proof -
  assume us: "us \<noteq> []" and vs: "vs \<noteq> []"
  have du: "map (\<lambda>u. fsub u (fmean (map Fin us))) (map Fin us) =
      map Fin (map (\<lambda>u. u - rmean us) us)"
    by (simp add: fmean_Fin [OF us] fsub_def)
  have dv: "map (\<lambda>v. fsub v (fmean (map Fin vs))) (map Fin vs) =
      map Fin (map (\<lambda>v. v - rmean vs) vs)"
    by (simp add: fmean_Fin [OF vs] fsub_def)
  from us show ?thesis
    unfolding cov_bias1_def Let_def du dv map2_fmul_Fin fsum_Fin rcov_def
    by simp
qed

lemma sum_dev_products:
  fixes P :: "(real \<times> real) list"
  shows "(\<Sum>p\<leftarrow>P. (fst p - mx) * (snd p - my)) =
   (\<Sum>p\<leftarrow>P. fst p * snd p) - mx * (\<Sum>p\<leftarrow>P. snd p) - my * (\<Sum>p\<leftarrow>P. fst p)
     + real (length P) * (mx * my)"
  by (induction P) (simp_all add: algebra_simps)

lemma sum_residuals:
  fixes P :: "(real \<times> real) list"
  shows "(\<Sum>p\<leftarrow>P. snd p - (s * fst p + c)) =
   (\<Sum>p\<leftarrow>P. snd p) - s * (\<Sum>p\<leftarrow>P. fst p) - real (length P) * c"
  by (induction P) (simp_all add: algebra_simps)

lemma sum_residuals_x:
  fixes P :: "(real \<times> real) list"
  shows "(\<Sum>p\<leftarrow>P. (snd p - (s * fst p + c)) * fst p) =
   (\<Sum>p\<leftarrow>P. fst p * snd p) - s * (\<Sum>p\<leftarrow>P. fst p * fst p) - c * (\<Sum>p\<leftarrow>P. fst p)"
  by (induction P) (simp_all add: algebra_simps)

lemma ssr_decompose:
  fixes P :: "(real \<times> real) list"
  shows "(\<Sum>p\<leftarrow>P. (snd p - (a * fst p + b))\<^sup>2) =
   (\<Sum>p\<leftarrow>P. (snd p - (s * fst p + c))\<^sup>2)
   + 2 * (s - a) * (\<Sum>p\<leftarrow>P. (snd p - (s * fst p + c)) * fst p)
   + 2 * (c - b) * (\<Sum>p\<leftarrow>P. snd p - (s * fst p + c))
   + (\<Sum>p\<leftarrow>P. ((s - a) * fst p + (c - b))\<^sup>2)"
  by (induction P) (simp_all add: algebra_simps power2_eq_square)


lemma rcov_alt:
  "rcov us vs = (\<Sum>p\<leftarrow>zip us vs. (fst p - rmean us) * (snd p - rmean vs)) / real (length us)"
  by (simp add: rcov_def zip_map_map comp_def case_prod_unfold)

lemma rcov_sums:
  assumes "length us = length vs"
  shows "rcov us vs =
    ((\<Sum>p\<leftarrow>zip us vs. fst p * snd p) - sum_list us * sum_list vs / real (length us))
    / real (length us)"
proof (cases "us = []")
  case True
  then show ?thesis by (simp add: rcov_alt)
next
  case False
  then have n: "real (length us) \<noteq> 0" by simp
  have fst: "sum_list (map fst (zip us vs)) = sum_list us"
    and snd: "sum_list (map snd (zip us vs)) = sum_list vs"
    using assms by simp_all
  have "(\<Sum>p\<leftarrow>zip us vs. (fst p - rmean us) * (snd p - rmean vs)) =
      (\<Sum>p\<leftarrow>zip us vs. fst p * snd p) - rmean us * sum_list vs - rmean vs * sum_list us
        + real (length us) * (rmean us * rmean vs)"
    using assms by (simp add: sum_dev_products fst snd)
  also have "\<dots> = (\<Sum>p\<leftarrow>zip us vs. fst p * snd p)
      - sum_list us * sum_list vs / real (length us)"
    using n assms by (simp add: rmean_def field_simps)
  finally show ?thesis by (simp add: rcov_alt)
qed

lemma ols_algebra:
  fixes n Sx Sy Sxx Sxy s c :: real
  assumes n: "n \<noteq> 0"
    and V: "(Sxx - Sx * Sx / n) / n \<noteq> 0"
    and s: "s = ((Sxy - Sx * Sy / n) / n) / ((Sxx - Sx * Sx / n) / n)"
    and c: "c = Sy / n - s * (Sx / n)"
  shows "Sy - s * Sx - n * c = 0" and "Sxy - s * Sxx - c * Sx = 0"
proof -
  show "Sy - s * Sx - n * c = 0"
    using n by (simp add: c field_simps)
  from n V have V': "Sxx - Sx * Sx / n \<noteq> 0" by simp
  from n have "s = (Sxy - Sx * Sy / n) / (Sxx - Sx * Sx / n)"
    by (simp add: s)
  with V' have sV: "s * (Sxx - Sx * Sx / n) = Sxy - Sx * Sy / n"
    by simp
  have "Sxy - s * Sxx - c * Sx = (Sxy - Sx * Sy / n) - s * (Sxx - Sx * Sx / n)"
    using n by (simp add: c field_simps)
  with sV show "Sxy - s * Sxx - c * Sx = 0" by simp
qed

lemma normal_equations:
  assumes len: "length xs = length ys" and ne: "xs \<noteq> []" and var: "rcov xs xs \<noteq> 0"
    and s: "s = rcov xs ys / rcov xs xs" and c: "c = rmean ys - s * rmean xs"
  shows "(\<Sum>p\<leftarrow>zip xs ys. snd p - (s * fst p + c)) = 0"
    and "(\<Sum>p\<leftarrow>zip xs ys. (snd p - (s * fst p + c)) * fst p) = 0"
proof -
  let ?n = "real (length xs)"
  let ?Sxx = "\<Sum>p\<leftarrow>zip xs ys. fst p * fst p"
  let ?Sxy = "\<Sum>p\<leftarrow>zip xs ys. fst p * snd p"
  from ne have n: "?n \<noteq> 0" by simp
  have fst: "sum_list (map fst (zip xs ys)) = sum_list xs"
    and snd: "sum_list (map snd (zip xs ys)) = sum_list ys"
    and lenP: "length (zip xs ys) = length xs"
    using len by simp_all
  have "(\<Sum>p\<leftarrow>zip xs xs. fst p * snd p) = (\<Sum>x\<leftarrow>xs. x * x)"
    by (simp add: zip_same_conv_map comp_def)
  moreover have "?Sxx = (\<Sum>x\<leftarrow>map fst (zip xs ys). x * x)"
    by (simp add: comp_def)
  ultimately have Sxx: "(\<Sum>p\<leftarrow>zip xs xs. fst p * snd p) = ?Sxx"
    using len by simp
  have V: "rcov xs xs = (?Sxx - sum_list xs * sum_list xs / ?n) / ?n"
    using rcov_sums [of xs xs] by (simp add: Sxx)
  have C: "rcov xs ys = (?Sxy - sum_list xs * sum_list ys / ?n) / ?n"
    using rcov_sums [OF len] .
  have c': "c = sum_list ys / ?n - s * (sum_list xs / ?n)"
    using len by (simp add: c rmean_def)
  note alg = ols_algebra [OF n var [unfolded V] s [unfolded V C] c']
  show "(\<Sum>p\<leftarrow>zip xs ys. snd p - (s * fst p + c)) = 0"
    using alg(1) by (simp only: sum_residuals fst snd lenP)
  show "(\<Sum>p\<leftarrow>zip xs ys. (snd p - (s * fst p + c)) * fst p) = 0"
    using alg(2) by (simp only: sum_residuals_x fst snd lenP)
qed

lemma ssr_minimal:
  assumes len: "length xs = length ys" and ne: "xs \<noteq> []" and var: "rcov xs xs \<noteq> 0"
    and s: "s = rcov xs ys / rcov xs xs" and c: "c = rmean ys - s * rmean xs"
  shows "ssr s c xs ys \<le> ssr a b xs ys"
proof -
  note ne0 = normal_equations [OF len ne var s c]
  have "ssr a b xs ys = ssr s c xs ys + (\<Sum>p\<leftarrow>zip xs ys. ((s - a) * fst p + (c - b))\<^sup>2)"
    unfolding ssr_def case_prod_unfold
    by (simp add: ssr_decompose [of a b "zip xs ys" s c] ne0)
  moreover have "0 \<le> (\<Sum>p\<leftarrow>zip xs ys. ((s - a) * fst p + (c - b))\<^sup>2)"
    by (rule sum_list_nonneg) auto
  ultimately show ?thesis by simp
qed

lemma rcov_self_nonzero:
  assumes "u \<in> set us" "v \<in> set us" "u \<noteq> v"
  shows "rcov us us \<noteq> 0"
proof
  assume zero: "rcov us us = 0"
  from assms have "us \<noteq> []" by auto
  then have n: "real (length us) \<noteq> 0" by simp
  have "rcov us us = (\<Sum>x\<leftarrow>us. (x - rmean us) * (x - rmean us)) / real (length us)"
    by (simp add: rcov_alt zip_same_conv_map comp_def)
  with zero n have "(\<Sum>x\<leftarrow>us. (x - rmean us) * (x - rmean us)) = 0" by simp
  then have all: "\<forall>x\<in>set us. (x - rmean us) * (x - rmean us) = 0"
    by (subst (asm) sum_list_nonneg_eq_0_iff) auto
  from all assms(1) have "(u - rmean us) * (u - rmean us) = 0" by (rule bspec)
  then have u: "u = rmean us" by simp
  from all assms(2) have "(v - rmean us) * (v - rmean us) = 0" by (rule bspec)
  then have v: "v = rmean us" by simp
  from u v assms(3) show False by simp
qed

lemma Max_neq_Min:
  fixes x :: "int list"
  assumes "u \<in> set x" "v \<in> set x" "u \<noteq> v"
  shows "Max (set x) \<noteq> Min (set x)"
proof
  assume eq: "Max (set x) = Min (set x)"
  from assms(1) have "Min (set x) \<le> u" "u \<le> Max (set x)" by simp_all
  with eq have u: "u = Min (set x)" by simp
  from assms(2) have "Min (set x) \<le> v" "v \<le> Max (set x)" by simp_all
  with eq have "v = Min (set x)" by simp
  with u assms(3) show False by simp
qed

lemma linregress_finite:
  assumes len: "length x = length ys"
    and u: "u \<in> set x" and v: "v \<in> set x" and neq: "u \<noteq> v"
  shows "linregress x (map Fin ys) =
     Inr (Fin (rcov (map real_of_int x) ys / rcov (map real_of_int x) (map real_of_int x)),
          Fin (rmean ys
               - rcov (map real_of_int x) ys / rcov (map real_of_int x) (map real_of_int x)
                 * rmean (map real_of_int x)))"
proof -
  let ?xs = "map real_of_int x"
  from u have x: "x \<noteq> []" by auto
  with len have ys: "ys \<noteq> []" by auto
  from x have xs: "?xs \<noteq> []" by simp
  have xf: "map fl_of_int x = map Fin ?xs"
    by (simp add: fl_of_int_def)
  from u v neq have "real_of_int u \<in> set ?xs" "real_of_int v \<in> set ?xs"
    "real_of_int u \<noteq> real_of_int v"
    by simp_all
  then have var: "rcov ?xs ?xs \<noteq> 0" by (rule rcov_self_nonzero)
  note mm = Max_neq_Min [OF u v neq]
  show ?thesis
    unfolding linregress_def Let_def xf
    using x ys mm len var
    by (simp add: cov_bias1_Fin [OF xs xs] cov_bias1_Fin [OF xs ys] fmean_Fin [OF xs]
        fmean_Fin [OF ys] fsub_def del: map_map)
qed

lemma fadd_NaN: "fadd NaN v = NaN" "fadd v NaN = NaN"
  by (cases v; simp)+

lemma fmul_NaN: "fmul NaN v = NaN" "fmul v NaN = NaN"
  by (cases v; simp)+

lemma fdiv_NaN: "fdiv NaN v = NaN" "fdiv v NaN = NaN"
  by (cases v; simp)+

lemma fsum_NaN: "NaN \<in> set vs \<Longrightarrow> fsum vs = NaN"
  by (induction vs) (auto simp: fsum_def fadd_NaN)

lemma fadd_cases:
  "(fadd a b = Fin r \<longrightarrow> (\<exists>x y. a = Fin x \<and> b = Fin y)) \<and>
   (fadd a b = PInf \<longrightarrow> a = PInf \<or> b = PInf) \<and>
   (fadd a b = NInf \<longrightarrow> a = NInf \<or> b = NInf)"
  by (cases a; cases b; simp)

lemma fsum_Fin_all: "fsum vs = Fin r \<Longrightarrow> v \<in> set vs \<Longrightarrow> \<exists>a. v = Fin a"
proof (induction vs arbitrary: r)
  case Nil
  then show ?case by simp
next
  case (Cons w ws)
  from Cons.prems(1) have "fadd w (fsum ws) = Fin r" by (simp add: fsum_def)
  with fadd_cases [of w "fsum ws" r] obtain x y where w: "w = Fin x" and rest: "fsum ws = Fin y"
    by blast
  from Cons.prems(2) have "v = w \<or> v \<in> set ws" by simp
  then show ?case
  proof
    assume "v = w"
    with w show ?thesis by simp
  next
    assume "v \<in> set ws"
    with rest show ?thesis by (rule Cons.IH)
  qed
qed

lemma fsum_PInf: "fsum vs = PInf \<Longrightarrow> PInf \<in> set vs"
proof (induction vs)
  case Nil
  then show ?case by (simp add: fsum_def)
next
  case (Cons w ws)
  from Cons.prems have "fadd w (fsum ws) = PInf" by (simp add: fsum_def)
  with fadd_cases [of w "fsum ws"] have "w = PInf \<or> fsum ws = PInf" by blast
  with Cons.IH show ?case by auto
qed

lemma fsum_NInf: "fsum vs = NInf \<Longrightarrow> NInf \<in> set vs"
proof (induction vs)
  case Nil
  then show ?case by (simp add: fsum_def)
next
  case (Cons w ws)
  from Cons.prems have "fadd w (fsum ws) = NInf" by (simp add: fsum_def)
  with fadd_cases [of w "fsum ws"] have "w = NInf \<or> fsum ws = NInf" by blast
  with Cons.IH show ?case by auto
qed

lemma deviations_have_NaN:
  assumes "v \<in> set vs" and "\<forall>r. v \<noteq> Fin r"
  shows "NaN \<in> set (map (\<lambda>v. fsub v (fmean vs)) vs)"
proof -
  from assms(1) have ne: "vs \<noteq> []" by auto
  then have n: "real (length vs) > 0" by simp
  show ?thesis
  proof (cases "fsum vs")
    case (Fin r)
    from fsum_Fin_all [OF Fin assms(1)] assms(2) show ?thesis by blast
  next
    case PInf
    then have "PInf \<in> set vs" by (rule fsum_PInf)
    moreover from PInf n have "fmean vs = PInf"
      by (simp add: fmean_def inf_of_sign_def)
    then have "fsub PInf (fmean vs) = NaN" by (simp add: fsub_def)
    ultimately show ?thesis by force
  next
    case NInf
    then have "NInf \<in> set vs" by (rule fsum_NInf)
    moreover from NInf n have "fmean vs = NInf"
      by (simp add: fmean_def inf_of_sign_def)
    then have "fsub NInf (fmean vs) = NaN" by (simp add: fsub_def)
    ultimately show ?thesis by force
  next
    case NaN
    then have "fmean vs = NaN" by (simp add: fmean_def)
    then have "fsub v (fmean vs) = NaN" by (simp add: fsub_def fadd_NaN)
    with assms(1) show ?thesis by force
  qed
qed

lemma cov_bias1_nonfinite:
  assumes len: "length us = length vs" and v: "v \<in> set vs" and nonfinite: "\<forall>r. v \<noteq> Fin r"
  shows "cov_bias1 us vs = NaN"
proof -
  let ?du = "map (\<lambda>u. fsub u (fmean us)) us"
  let ?dv = "map (\<lambda>v. fsub v (fmean vs)) vs"
  have nan: "NaN \<in> set ?dv" using v nonfinite by (rule deviations_have_NaN)
  have lens: "length ?du = length ?dv" using len by simp
  from lens nan obtain a where "(a, NaN) \<in> set (zip ?du ?dv)"
    by (rule in_set_impl_in_set_zip2)
  then have "(\<lambda>(a, b). fmul a b) (a, NaN) \<in> (\<lambda>(a, b). fmul a b) ` set (zip ?du ?dv)"
    by (rule imageI)
  then have "fmul a NaN \<in> set (map (\<lambda>(a, b). fmul a b) (zip ?du ?dv))"
    by (simp only: set_map prod.case)
  then have "NaN \<in> set (map (\<lambda>(a, b). fmul a b) (zip ?du ?dv))"
    by (simp only: fmul_NaN)
  then have "fsum (map (\<lambda>(a, b). fmul a b) (zip ?du ?dv)) = NaN"
    by (rule fsum_NaN)
  then show ?thesis
    by (simp add: cov_bias1_def Let_def fmul_NaN)
qed

lemma linregress_nonfinite:
  assumes len: "length x = length y"
    and u: "u \<in> set x" and w: "w \<in> set x" and neq: "u \<noteq> w"
    and v: "v \<in> set y" and nonfinite: "\<forall>r. v \<noteq> Fin r"
  shows "linregress x y = Inr (NaN, NaN)"
proof -
  from u have x: "x \<noteq> []" by auto
  from v have y: "y \<noteq> []" by auto
  note mm = Max_neq_Min [OF u w neq]
  have "length (map fl_of_int x) = length y" using len by simp
  then have "cov_bias1 (map fl_of_int x) y = NaN"
    using v nonfinite by (rule cov_bias1_nonfinite)
  with x y mm len show ?thesis
    by (simp add: linregress_def Let_def fdiv_NaN fmul_NaN fsub_def fadd_NaN)
qed

lemma linregress_identical:
  assumes "2 \<le> length x" and "y \<noteq> []" and "\<forall>v\<in>set x. v = c"
  shows "linregress x y =
     Inl (ValueError ''Cannot calculate a linear regression if all x values are identical'')"
proof -
  from assms(1) have x: "x \<noteq> []" by auto
  with assms(3) have "set x = {c}" by (cases x) auto
  then have "Max (set x) = Min (set x)" by simp
  with x assms(1,2) show ?thesis by (simp add: linregress_def)
qed

text \<open>
  Claim C5 says that every input of two or more points yields the fitted values of the
  least squares line. When all dates are the same day the library refuses the input and
  \<^verbatim>\<open>line_of_best_fit\<close> raises ValueError; and when a value is NaN, as the percentage of a
  day without traffic is, every fitted value is NaN and no line is fitted.
\<close>

theorem line_of_best_fit_identical_dates_counterexample:
  "line_of_best_fit [737791, 737791] [Fin 1, Fin 2] =
     Inl (ValueError ''Cannot calculate a linear regression if all x values are identical'') \<and>
   line_of_best_fit [737791, 737792] [NaN, Fin 1] = Inr [NaN, NaN]"
proof -
  have "line_of_best_fit [737791, 737791] [Fin 1, Fin 2] =
     Inl (ValueError ''Cannot calculate a linear regression if all x values are identical'')"
    by (simp add: line_of_best_fit_def linregress_def toordinal_def bind_def)
  moreover have "linregress [737791, 737792] [NaN, Fin 1] = Inr (NaN, NaN)"
    by (rule linregress_nonfinite [where u = 737791 and w = 737792 and v = NaN]) simp_all
  then have "line_of_best_fit [737791, 737792] [NaN, Fin 1] = Inr [NaN, NaN]"
    by (simp add: line_of_best_fit_def toordinal_def bind_def)
  ultimately show ?thesis by simp
qed

text \<open>
  Claim C5, amended: for every input of n dates and n values, n at least 2: when all
  dates are the same day \<^verbatim>\<open>line_of_best_fit\<close> raises the ValueError "Cannot calculate a
  linear regression if all x values are identical"; when there are two distinct dates it
  returns exactly n fitted values, one per input date in the input order. If all values
  are finite the i-th fitted value is slope * ordinal(date i) + intercept, where (slope,
  intercept) minimises the sum of squared residuals over the ordinal-encoded dates; if
  some value is NaN or infinite every fitted value is NaN.
\<close>

theorem line_of_best_fit_least_squares:
  "(2 \<le> length dates \<and> length dates = length y \<and> (\<forall>d\<in>set dates. d = d0) \<longrightarrow>
      line_of_best_fit dates y =
        Inl (ValueError
          ''Cannot calculate a linear regression if all x values are identical'')) \<and>
   (length dates = length ys \<and> d1 \<in> set dates \<and> d2 \<in> set dates \<and> d1 \<noteq> d2 \<longrightarrow>
      (\<exists>slope intercept.
         line_of_best_fit dates (map Fin ys) =
           Inr (map (\<lambda>d. Fin (slope * real_of_int (toordinal d) + intercept)) dates) \<and>
         (\<forall>a b. ssr slope intercept (map (\<lambda>d. real_of_int (toordinal d)) dates) ys
                  \<le> ssr a b (map (\<lambda>d. real_of_int (toordinal d)) dates) ys))) \<and>
   (length dates = length y \<and> d1 \<in> set dates \<and> d2 \<in> set dates \<and> d1 \<noteq> d2 \<and>
    v \<in> set y \<and> (\<forall>r. v \<noteq> Fin r) \<longrightarrow>
      line_of_best_fit dates y = Inr (map (\<lambda>d. NaN) dates))"
proof (intro conjI impI)
  assume a: "2 \<le> length dates \<and> length dates = length y \<and> (\<forall>d\<in>set dates. d = d0)"
  then have "2 \<le> length (map toordinal dates)" and "y \<noteq> []"
    and "\<forall>v\<in>set (map toordinal dates). v = toordinal d0"
    by auto
  then have "linregress (map toordinal dates) y =
      Inl (ValueError ''Cannot calculate a linear regression if all x values are identical'')"
    by (rule linregress_identical)
  then show "line_of_best_fit dates y =
      Inl (ValueError ''Cannot calculate a linear regression if all x values are identical'')"
    by (simp add: line_of_best_fit_def Let_def bind_def)
next
  assume a: "length dates = length y \<and> d1 \<in> set dates \<and> d2 \<in> set dates \<and> d1 \<noteq> d2 \<and>
    v \<in> set y \<and> (\<forall>r. v \<noteq> Fin r)"
  then have "length (map toordinal dates) = length y"
    and "toordinal d1 \<in> set (map toordinal dates)"
    and "toordinal d2 \<in> set (map toordinal dates)"
    and "toordinal d1 \<noteq> toordinal d2" and "v \<in> set y" and "\<forall>r. v \<noteq> Fin r"
    by (simp_all add: toordinal_def)
  then have "linregress (map toordinal dates) y = Inr (NaN, NaN)"
    by (rule linregress_nonfinite)
  then show "line_of_best_fit dates y = Inr (map (\<lambda>d. NaN) dates)"
    by (simp add: line_of_best_fit_def Let_def bind_def fmul_NaN fadd_NaN comp_def)
next
  assume a: "length dates = length ys \<and> d1 \<in> set dates \<and> d2 \<in> set dates \<and> d1 \<noteq> d2"
  let ?x = "map toordinal dates"
  let ?xs = "map real_of_int ?x"
  let ?s = "rcov ?xs ys / rcov ?xs ?xs"
  let ?c = "rmean ys - ?s * rmean ?xs"
  have len: "length ?x = length ys" using a by simp
  have u: "toordinal d1 \<in> set ?x" and v: "toordinal d2 \<in> set ?x"
    using a by simp_all
  have neq: "toordinal d1 \<noteq> toordinal d2" using a by (simp add: toordinal_def)
  have fit: "line_of_best_fit dates (map Fin ys) =
      Inr (map (\<lambda>d. Fin (?s * real_of_int (toordinal d) + ?c)) dates)"
    by (simp add: line_of_best_fit_def Let_def linregress_finite [OF len u v neq] bind_def
        fl_of_int_def comp_def)
  have xs: "?xs \<noteq> []" using a by auto
  have lens: "length ?xs = length ys" using a by simp
  from u v neq have "real_of_int (toordinal d1) \<in> set ?xs"
    "real_of_int (toordinal d2) \<in> set ?xs"
    "real_of_int (toordinal d1) \<noteq> real_of_int (toordinal d2)"
    by (simp_all del: map_map)
  then have var: "rcov ?xs ?xs \<noteq> 0" by (rule rcov_self_nonzero)
  have "ssr ?s ?c ?xs ys \<le> ssr a b ?xs ys" for a b
    by (rule ssr_minimal [OF lens xs var refl refl])
  then have best: "\<forall>a b. ssr ?s ?c (map (\<lambda>d. real_of_int (toordinal d)) dates) ys
       \<le> ssr a b (map (\<lambda>d. real_of_int (toordinal d)) dates) ys"
    by (simp add: comp_def)
  from fit best show "\<exists>slope intercept.
         line_of_best_fit dates (map Fin ys) =
           Inr (map (\<lambda>d. Fin (slope * real_of_int (toordinal d) + intercept)) dates) \<and>
         (\<forall>a b. ssr slope intercept (map (\<lambda>d. real_of_int (toordinal d)) dates) ys
                  \<le> ssr a b (map (\<lambda>d. real_of_int (toordinal d)) dates) ys)"
    by blast
qed

theorem line_of_best_fit_least_squares_witness:
  "line_of_best_fit [737791, 737791, 737791] [Fin 50, Fin 60, NaN] =
     Inl (ValueError ''Cannot calculate a linear regression if all x values are identical'') \<and>
   (\<exists>slope intercept.
     line_of_best_fit [737791, 737792] (map Fin [50, 60]) =
       Inr (map (\<lambda>d. Fin (slope * real_of_int (toordinal d) + intercept)) [737791, 737792]) \<and>
     (\<forall>a b. ssr slope intercept (map (\<lambda>d. real_of_int (toordinal d)) [737791, 737792]) [50, 60]
              \<le> ssr a b (map (\<lambda>d. real_of_int (toordinal d)) [737791, 737792]) [50, 60])) \<and>
   line_of_best_fit [737791, 737792, 737793] [Fin 50, PInf, Fin 60] =
     Inr (map (\<lambda>d. NaN) [737791, 737792, 737793 :: date])"
proof -
  have h1: "2 \<le> length [737791, 737791, 737791 :: date] \<and>
      length [737791, 737791, 737791 :: date] = length [Fin 50, Fin 60, NaN] \<and>
      (\<forall>d\<in>set [737791, 737791, 737791 :: date]. d = 737791)"
    by simp
  have h2: "length [737791, 737792 :: date] = length [50, 60 :: real] \<and>
      (737791 :: date) \<in> set [737791, 737792] \<and> (737792 :: date) \<in> set [737791, 737792] \<and>
      (737791 :: date) \<noteq> 737792"
    by simp
  have h3: "length [737791, 737792, 737793 :: date] = length [Fin 50, PInf, Fin 60] \<and>
      (737791 :: date) \<in> set [737791, 737792, 737793] \<and>
      (737792 :: date) \<in> set [737791, 737792, 737793] \<and> (737791 :: date) \<noteq> 737792 \<and>
      PInf \<in> set [Fin 50, PInf, Fin 60] \<and> (\<forall>r. PInf \<noteq> Fin r)"
    by simp
  from h1 line_of_best_fit_least_squares
    [of "[737791, 737791, 737791]" "[Fin 50, Fin 60, NaN]" 737791]
  have w1: "line_of_best_fit [737791, 737791, 737791] [Fin 50, Fin 60, NaN] =
     Inl (ValueError ''Cannot calculate a linear regression if all x values are identical'')"
    by blast
  from h2 line_of_best_fit_least_squares
    [of "[737791, 737792]" _ _ "[50, 60]" 737791 737792]
  have w2: "\<exists>slope intercept.
     line_of_best_fit [737791, 737792] (map Fin [50, 60]) =
       Inr (map (\<lambda>d. Fin (slope * real_of_int (toordinal d) + intercept)) [737791, 737792]) \<and>
     (\<forall>a b. ssr slope intercept (map (\<lambda>d. real_of_int (toordinal d)) [737791, 737792]) [50, 60]
              \<le> ssr a b (map (\<lambda>d. real_of_int (toordinal d)) [737791, 737792]) [50, 60])"
    by blast
  from h3 line_of_best_fit_least_squares
    [of "[737791, 737792, 737793]" "[Fin 50, PInf, Fin 60]" _ _ 737791 737792 PInf]
  have w3: "line_of_best_fit [737791, 737792, 737793] [Fin 50, PInf, Fin 60] =
     Inr (map (\<lambda>d. NaN) [737791, 737792, 737793 :: date])"
    by blast
  from w1 w2 w3 show ?thesis by blast
qed

lemma rmean_line:
  "xs \<noteq> [] \<Longrightarrow> rmean (map (\<lambda>x. a * x + b) xs) = a * rmean xs + b"
proof -
  assume "xs \<noteq> []"
  then have n: "real (length xs) \<noteq> 0" by simp
  have "sum_list (map (\<lambda>x. a * x + b) xs) = a * sum_list xs + real (length xs) * b"
    by (induction xs) (simp_all add: algebra_simps)
  with n show ?thesis by (simp add: rmean_def field_simps)
qed

lemma rcov_line:
  "xs \<noteq> [] \<Longrightarrow> rcov xs (map (\<lambda>x. a * x + b) xs) = a * rcov xs xs"
proof -
  assume ne: "xs \<noteq> []"
  have "(\<Sum>x\<leftarrow>xs. (x - m) * (a * x + b - (a * m + b))) = a * (\<Sum>x\<leftarrow>xs. (x - m) * (x - m))" for m
    by (induction xs) (simp_all add: algebra_simps)
  then show ?thesis
    by (simp add: rcov_alt rmean_line [OF ne] zip_map2 zip_same_conv_map comp_def)
qed

text \<open>
  Claim C6: for every input with at least two distinct dates whose values lie exactly on
  a line \<^verbatim>\<open>a * ordinal(date) + b\<close> (for instance a = 2, b = 3), the fitted values are the
  input values. Finite arithmetic is exact here, so the values are equal, not only
  close.
\<close>

theorem line_of_best_fit_exact_line:
  assumes "d1 \<in> set dates" and "d2 \<in> set dates" and "d1 \<noteq> d2"
  shows "line_of_best_fit dates (map (\<lambda>d. Fin (a * real_of_int (toordinal d) + b)) dates) =
     Inr (map (\<lambda>d. Fin (a * real_of_int (toordinal d) + b)) dates)"
proof -
  let ?x = "map toordinal dates"
  let ?xs = "map real_of_int ?x"
  let ?ys = "map (\<lambda>x. a * x + b) ?xs"
  have ys: "map (\<lambda>d. Fin (a * real_of_int (toordinal d) + b)) dates = map Fin ?ys"
    by (simp add: comp_def)
  have len: "length ?x = length ?ys" by simp
  have u: "toordinal d1 \<in> set ?x" and v: "toordinal d2 \<in> set ?x"
    using assms(1,2) by simp_all
  have neq: "toordinal d1 \<noteq> toordinal d2" using assms(3) by (simp add: toordinal_def)
  have xs: "?xs \<noteq> []" using assms(1) by auto
  from u v neq have "real_of_int (toordinal d1) \<in> set ?xs"
    "real_of_int (toordinal d2) \<in> set ?xs"
    "real_of_int (toordinal d1) \<noteq> real_of_int (toordinal d2)"
    by (simp_all del: map_map)
  then have var: "rcov ?xs ?xs \<noteq> 0" by (rule rcov_self_nonzero)
  have slope: "rcov ?xs ?ys / rcov ?xs ?xs = a"
    using var by (simp only: rcov_line [OF xs]) (simp del: map_map)
  have icpt: "rmean ?ys - a * rmean ?xs = b"
    by (simp only: rmean_line [OF xs] add_diff_cancel_left')
  have "linregress ?x (map Fin ?ys) = Inr (Fin a, Fin b)"
    using linregress_finite [OF len u v neq] by (simp only: slope icpt)
  then show ?thesis
    unfolding ys
    by (simp add: line_of_best_fit_def Let_def bind_def fl_of_int_def comp_def)
qed

theorem line_of_best_fit_exact_line_witness:
  "(737791 :: date) \<noteq> 737792 \<and>
   line_of_best_fit [737791, 737792] [Fin 1475585, Fin 1475587] =
     Inr [Fin 1475585, Fin 1475587]"
  using line_of_best_fit_exact_line [of 737791 "[737791, 737792]" 737792 2 3]
  by (simp add: toordinal_def)

end
